theory Spec2Isabelle
  imports Complex_Main
begin

section \<open>The charging station of evsim/ev\_charger.py\<close>

text \<open>
  The class \<open>EV_Charger\<close> is embedded as a record, its methods as functions that take the
  station and return the updated one. Python numbers are modelled as exact reals (prices,
  currents, powers, actions) and integers (counters, port count). Every \<open>raise\<close> and
  failing \<open>assert\<close> is a value of the type \<open>error\<close>; the station reached at the moment
  of the raise is returned with it, since the object keeps the mutations made so far.
\<close>

subsection \<open>Errors\<close>

datatype assert_site =
    LenActions    \<comment> \<open>\<open>assert (len(actions) == self.n_ports)\<close>\<close>
  | ActionRange   \<comment> \<open>\<open>assert action >= -1 and action <= 1\<close>\<close>
  | PortFree      \<comment> \<open>\<open>assert (self.n_evs_connected < self.n_ports)\<close>\<close>

datatype error =
    AssertionError assert_site
  | IndexError          \<comment> \<open>list index out of range\<close>
  | AttributeError      \<comment> \<open>\<open>None.step(...)\<close>\<close>
  | UnboundLocalError   \<comment> \<open>a local variable read before any assignment\<close>
  | ValueError          \<comment> \<open>\<open>list.index\<close> of an absent element\<close>
  | Exception           \<comment> \<open>the \<open>raise Exception\<close> of the current check in \<open>step\<close>\<close>

subsection \<open>Vehicles\<close>

text \<open>
  The vehicle class lives in evsim/ev.py, which is outside the modelled files. A vehicle
  is a record with the attribute \<open>id\<close> that \<open>spawn_ev\<close> assigns and an opaque rest; the
  methods the station calls are the fields of \<open>EV_model\<close>, a parameter of every station
  function that calls a vehicle.
  \<^item> \<open>ev_step ev amps None\<close> is the call \<open>ev.step(0)\<close>, and
    \<open>ev_step ev amps (Some (voltage, type))\<close> the call \<open>ev.step(amps, voltage, type=...)\<close>;
    the result is \<open>((actual_power, actual_amps), ev')\<close> with \<open>ev'\<close> the vehicle after the call;
  \<^item> \<open>is_departing ev t\<close> is \<open>ev.is_departing(t) is not None\<close>.

  Vehicles are values here: the station's slot holds the vehicle as the last call left
  it. One vehicle object attached to two ports at once is not represented; \<open>is_departing\<close>,
  \<open>get_user_satisfaction\<close> and \<open>get_state\<close> are taken to read the vehicle only.
\<close>

record 'b EV =
  ev_id :: int
  internals :: 'b

record 'b EV_model =
  ev_step :: "'b EV \<Rightarrow> real \<Rightarrow> (real \<times> string) option \<Rightarrow> (real \<times> real) \<times> 'b EV"
  is_departing :: "'b EV \<Rightarrow> int \<Rightarrow> bool"
  get_user_satisfaction :: "'b EV \<Rightarrow> real"
  ev_get_state :: "'b EV \<Rightarrow> int \<Rightarrow> real list"

subsection \<open>The station\<close>

record 'b EV_Charger =
  charger_id :: int
  connected_bus :: int
  connected_transformer :: int
  geo_location :: "(real \<times> real) option"
  n_ports :: int
  charger_type :: string
  bi_directional :: bool
  timescale :: int
  min_charge_current :: real
  max_charge_current :: real
  min_discharge_current :: real
  max_discharge_current :: real
  voltage :: real
  current_power_output :: real
  evs_connected :: "'b EV option list"
  n_evs_connected :: int
  current_step :: int
  current_charge_price :: real
  current_discharge_price :: real
  current_total_amps :: real
  total_energy_charged :: real
  total_energy_discharged :: real
  total_profits :: real
  total_evs_served :: int
  total_user_satisfaction :: real
  verbose :: bool

text \<open>\<open>__init__\<close>; \<open>[None] * n_ports\<close> is the empty list for a negative \<open>n_ports\<close>.\<close>

definition EV_Charger_init ::
  "int \<Rightarrow> int \<Rightarrow> int \<Rightarrow> (real \<times> real) option \<Rightarrow> real \<Rightarrow> real \<Rightarrow> real \<Rightarrow> real \<Rightarrow> real \<Rightarrow>
   int \<Rightarrow> string \<Rightarrow> bool \<Rightarrow> int \<Rightarrow> bool \<Rightarrow> 'b EV_Charger" where
  "EV_Charger_init ident bus transformer geo min_charge max_charge min_discharge max_discharge
     volt ports ctype bidir tscale verb =
   \<lparr>charger_id = ident,
    connected_bus = bus,
    connected_transformer = transformer,
    geo_location = geo,
    n_ports = ports,
    charger_type = ctype,
    bi_directional = bidir,
    timescale = tscale,
    min_charge_current = min_charge,
    max_charge_current = max_charge,
    min_discharge_current = min_discharge,
    max_discharge_current = max_discharge,
    voltage = volt,
    current_power_output = 0,
    evs_connected = replicate (nat ports) None,
    n_evs_connected = 0,
    current_step = 0,
    current_charge_price = 0,
    current_discharge_price = 0,
    current_total_amps = 0,
    total_energy_charged = 0,
    total_energy_discharged = 0,
    total_profits = 0,
    total_evs_served = 0,
    total_user_satisfaction = 0,
    verbose = verb\<rparr>"

subsection \<open>Helpers of \<open>step\<close>\<close>

text \<open>\<open>xs[i]\<close> for \<open>i \<ge> 0\<close>: IndexError out of range.\<close>

definition get_slot :: "'a list \<Rightarrow> nat \<Rightarrow> error + 'a" where
  "get_slot xs i = (if i < length xs then Inr (xs ! i) else Inl IndexError)"

text \<open>
  \<open>round(action, 5)\<close>: the nearest multiple of \<open>10\<^sup>-\<^sup>5\<close>, a tie going to the even
  multiple.
\<close>

definition round_half_even :: "real \<Rightarrow> int" where
  "round_half_even x =
     (let f = \<lfloor>x\<rfloor>; d = x - of_int f
      in if d < 1 / 2 then f
         else if 1 / 2 < d then f + 1
         else if even f then f else f + 1)"

definition round5 :: "real \<Rightarrow> real" where
  "round5 x = of_int (round_half_even (x * 100000)) / 100000"

text \<open>
  Lines 121 to 125: the loop over \<open>range(len(actions))\<close> that writes 0 into \<open>actions[i]\<close>
  for every empty port and counts them. The two lists are walked together; a port list
  shorter than the action list is the IndexError of \<open>self.evs_connected[i]\<close>, raised
  after the entries before it were written. The first component is the caller's list
  after the loop.
\<close>

fun zero_empty_ports :: "'a option list \<Rightarrow> real list \<Rightarrow> real list \<times> (error + int)" where
  "zero_empty_ports evs [] = ([], Inr 0)"
| "zero_empty_ports [] (a # as) = (a # as, Inl IndexError)"
| "zero_empty_ports (ev # evs) (a # as) =
     (case zero_empty_ports evs as of
        (as', Inl e) \<Rightarrow> ((if ev = None then 0 else a) # as', Inl e)
      | (as', Inr n) \<Rightarrow>
          ((if ev = None then 0 else a) # as', Inr (if ev = None then n + 1 else n)))"

text \<open>Lines 128 to 134.\<close>

definition normalize_actions :: "real list \<Rightarrow> real list" where
  "normalize_actions actions =
     (if sum_list actions > 1 then map (\<lambda>action. action / sum_list actions) actions
      else if sum_list actions < - 1 then map (\<lambda>action. - action / sum_list actions) actions
      else actions)"

text \<open>
  The local variables of \<open>step\<close> that live across the iterations of the port loop.
  \<open>actual_power\<close> and \<open>actual_amps\<close> are unbound (\<open>None\<close>) until a branch assigns them,
  and keep the value of an earlier iteration afterwards.
\<close>

record step_locals =
  profit :: real
  actual_power :: "real option"
  actual_amps :: "real option"

text \<open>Lines 147 to 159, the branch \<open>action > 0\<close>.\<close>

definition charge_port ::
  "'b EV_model \<Rightarrow> real \<Rightarrow> nat \<Rightarrow> real \<Rightarrow> 'b EV_Charger \<Rightarrow> step_locals \<Rightarrow>
   'b EV_Charger \<times> (error + step_locals)" where
  "charge_port M charge_price i action self L =
     (let amps = action * max_charge_current self;
          amps = (if amps < min_charge_current self then 0 else amps)
      in case get_slot (evs_connected self) i of
           Inl e \<Rightarrow> (self, Inl e)
         | Inr None \<Rightarrow> (self, Inl AttributeError)
         | Inr (Some ev) \<Rightarrow>
             (case ev_step M ev amps (Some (voltage self, charger_type self)) of
                ((p, a), ev') \<Rightarrow>
                  (self\<lparr>evs_connected := (evs_connected self)[i := Some ev'],
                        total_energy_charged := total_energy_charged self + \<bar>p\<bar>,
                        current_power_output := current_power_output self + p,
                        current_total_amps := current_total_amps self + a\<rparr>,
                   Inr (L\<lparr>profit := profit L + \<bar>p\<bar> * charge_price,
                          actual_power := Some p,
                          actual_amps := Some a\<rparr>))))"

text \<open>
  Lines 173 to 176, shared by both arms of the branch \<open>action < 0\<close>: they read the
  locals \<open>actual_power\<close> and \<open>actual_amps\<close>, whatever assigned them.
\<close>

definition discharge_account ::
  "real \<Rightarrow> 'b EV_Charger \<Rightarrow> step_locals \<Rightarrow> 'b EV_Charger \<times> (error + step_locals)" where
  "discharge_account discharge_price self L =
     (case actual_power L of
        None \<Rightarrow> (self, Inl UnboundLocalError)
      | Some p \<Rightarrow>
          (let self = self\<lparr>total_energy_discharged := total_energy_discharged self + \<bar>p\<bar>,
                           current_power_output := current_power_output self + p\<rparr>
           in case actual_amps L of
                None \<Rightarrow> (self, Inl UnboundLocalError)
              | Some a \<Rightarrow>
                  (self\<lparr>current_total_amps := current_total_amps self + a\<rparr>,
                   Inr (L\<lparr>profit := profit L + \<bar>p\<bar> * discharge_price\<rparr>))))"

text \<open>Lines 165 to 167: the current asked of the vehicle when discharging.\<close>

definition discharge_amps :: "'b EV_Charger \<Rightarrow> real \<Rightarrow> real" where
  "discharge_amps self action =
     (let amps = action * \<bar>max_charge_current self\<bar>
      in if amps > min_discharge_current self then min_discharge_current self else amps)"

text \<open>
  Lines 161 to 176, the branch \<open>action < 0\<close>. Line 163 is
  \<open>actual_power, actual_power = 0, 0\<close>: it assigns \<open>actual_power\<close> twice and leaves
  \<open>actual_amps\<close> as it was.
\<close>

definition discharge_port ::
  "'b EV_model \<Rightarrow> real \<Rightarrow> nat \<Rightarrow> real \<Rightarrow> 'b EV_Charger \<Rightarrow> step_locals \<Rightarrow>
   'b EV_Charger \<times> (error + step_locals)" where
  "discharge_port M discharge_price i action self L =
     (if \<not> bi_directional self then
        discharge_account discharge_price self (L\<lparr>actual_power := Some 0\<rparr>)
      else
        (case get_slot (evs_connected self) i of
           Inl e \<Rightarrow> (self, Inl e)
         | Inr None \<Rightarrow> (self, Inl AttributeError)
         | Inr (Some ev) \<Rightarrow>
             (case ev_step M ev (discharge_amps self action)
                     (Some (voltage self, charger_type self)) of
                ((p, a), ev') \<Rightarrow>
                  discharge_account discharge_price
                    (self\<lparr>evs_connected := (evs_connected self)[i := Some ev']\<rparr>)
                    (L\<lparr>actual_power := Some p, actual_amps := Some a\<rparr>))))"

text \<open>Lines 144 to 176: the \<open>if\<close>/\<open>elif\<close> chain on the rounded action.\<close>

definition dispatch_port ::
  "'b EV_model \<Rightarrow> real \<Rightarrow> real \<Rightarrow> nat \<Rightarrow> real \<Rightarrow> 'b EV_Charger \<Rightarrow> step_locals \<Rightarrow>
   'b EV_Charger \<times> (error + step_locals)" where
  "dispatch_port M charge_price discharge_price i action self L =
     (if action = 0 then
        (case get_slot (evs_connected self) i of
           Inl e \<Rightarrow> (self, Inl e)
         | Inr None \<Rightarrow> (self, Inr L)
         | Inr (Some ev) \<Rightarrow>
             (self\<lparr>evs_connected := (evs_connected self)[i := Some (snd (ev_step M ev 0 None))]\<rparr>,
              Inr L))
      else if action > 0 then charge_port M charge_price i action self L
      else if action < 0 then discharge_port M discharge_price i action self L
      else (self, Inr L))"

text \<open>
  Lines 178 to 185: the check of the aggregate current after the port, then the verbose
  print, which reads \<open>actual_power\<close> and \<open>actual_amps\<close> when the port is occupied.
\<close>

definition check_port ::
  "nat \<Rightarrow> 'b EV_Charger \<Rightarrow> step_locals \<Rightarrow> 'b EV_Charger \<times> (error + step_locals)" where
  "check_port i self L =
     (if current_total_amps self - 0.0001 > max_charge_current self then (self, Inl Exception)
      else if verbose self then
        (case get_slot (evs_connected self) i of
           Inl e \<Rightarrow> (self, Inl e)
         | Inr None \<Rightarrow> (self, Inr L)
         | Inr (Some ev) \<Rightarrow>
             (if actual_power L = None \<or> actual_amps L = None then (self, Inl UnboundLocalError)
              else (self, Inr L)))
      else (self, Inr L))"

text \<open>Lines 140 to 185: one iteration of the port loop.\<close>

definition step_port ::
  "'b EV_model \<Rightarrow> real \<Rightarrow> real \<Rightarrow> nat \<Rightarrow> real \<Rightarrow> 'b EV_Charger \<Rightarrow> step_locals \<Rightarrow>
   'b EV_Charger \<times> (error + step_locals)" where
  "step_port M charge_price discharge_price i action0 self L =
     (let action = round5 action0
      in if \<not> (action \<ge> - 1 \<and> action \<le> 1) then (self, Inl (AssertionError ActionRange))
         else (case dispatch_port M charge_price discharge_price i action self L of
                 (self', Inl e) \<Rightarrow> (self', Inl e)
               | (self', Inr L') \<Rightarrow> check_port i self' L'))"

text \<open>The loop \<open>for i, action in enumerate(normalized_actions)\<close>; it stops at the first raise.\<close>

fun port_loop ::
  "'b EV_model \<Rightarrow> real \<Rightarrow> real \<Rightarrow> (nat \<times> real) list \<Rightarrow> 'b EV_Charger \<Rightarrow> step_locals \<Rightarrow>
   'b EV_Charger \<times> (error + step_locals)" where
  "port_loop M charge_price discharge_price [] self L = (self, Inr L)"
| "port_loop M charge_price discharge_price ((i, action) # rest) self L =
     (case step_port M charge_price discharge_price i action self L of
        (self', Inl e) \<Rightarrow> (self', Inl e)
      | (self', Inr L') \<Rightarrow> port_loop M charge_price discharge_price rest self' L')"

text \<open>
  Lines 190 to 201: the departure scan, one port. The second component is the list
  \<open>user_satisfaction\<close>.
\<close>

definition depart_port ::
  "'b EV_model \<Rightarrow> nat \<Rightarrow> 'b EV_Charger \<times> real list \<Rightarrow> 'b EV_Charger \<times> real list" where
  "depart_port M i = (\<lambda>(self, user_satisfaction).
     if i < length (evs_connected self) then
       (case evs_connected self ! i of
          None \<Rightarrow> (self, user_satisfaction)
        | Some ev \<Rightarrow>
            if is_departing M ev (current_step self) then
              (let ev_user_satisfaction = get_user_satisfaction M ev
               in (self\<lparr>evs_connected := (evs_connected self)[i := None],
                        n_evs_connected := n_evs_connected self - 1,
                        total_evs_served := total_evs_served self + 1,
                        total_user_satisfaction :=
                          total_user_satisfaction self + ev_user_satisfaction\<rparr>,
                   user_satisfaction @ [ev_user_satisfaction]))
            else (self, user_satisfaction))
     else (self, user_satisfaction))"

definition departure_scan ::
  "'b EV_model \<Rightarrow> 'b EV_Charger \<Rightarrow> 'b EV_Charger \<times> real list" where
  "departure_scan M self =
     fold (depart_port M) [0 ..< length (evs_connected self)] (self, [])"

subsection \<open>\<open>step\<close>\<close>

text \<open>
  The result is the caller's action list after the call, the station after the call, and
  either the error raised or the returned triple
  \<open>(profit, user_satisfaction, invalid_action_punishment)\<close>.
\<close>

definition step ::
  "'b EV_model \<Rightarrow> 'b EV_Charger \<Rightarrow> real list \<Rightarrow> real \<Rightarrow> real \<Rightarrow>
   real list \<times> 'b EV_Charger \<times> (error + real \<times> real list \<times> int)" where
  "step M self0 actions0 charge_price discharge_price =
     (let self = self0\<lparr>current_power_output := 0,
                       current_total_amps := 0,
                       current_charge_price := charge_price,
                       current_discharge_price := discharge_price\<rparr>
      in if int (length actions0) \<noteq> n_ports self
         then (actions0, self, Inl (AssertionError LenActions))
         else
           (case zero_empty_ports (evs_connected self) actions0 of
              (actions, Inl e) \<Rightarrow> (actions, self, Inl e)
            | (actions, Inr invalid_action_punishment) \<Rightarrow>
                (case port_loop M charge_price discharge_price
                        (enumerate 0 (normalize_actions actions)) self
                        \<lparr>profit = 0, actual_power = None, actual_amps = None\<rparr> of
                   (self, Inl e) \<Rightarrow> (actions, self, Inl e)
                 | (self, Inr L) \<Rightarrow>
                     (let self = self\<lparr>total_profits := total_profits self + profit L\<rparr>
                      in case departure_scan M self of
                           (self, user_satisfaction) \<Rightarrow>
                             (actions,
                              self\<lparr>current_step := current_step self + 1\<rparr>,
                              Inr (profit L, user_satisfaction, invalid_action_punishment))))))"

subsection \<open>The other methods\<close>

text \<open>\<open>get_state\<close>: \<open>np.hstack\<close> of the two prices and one block per port.\<close>

definition get_state :: "'b EV_model \<Rightarrow> 'b EV_Charger \<Rightarrow> real list" where
  "get_state M self =
     [current_charge_price self, current_discharge_price self] @
     concat (map (\<lambda>slot. case slot of
                           Some ev \<Rightarrow> ev_get_state M ev (current_step self)
                         | None \<Rightarrow> [0, 0])
                 (evs_connected self))"

definition get_avg_user_satisfaction :: "'b EV_Charger \<Rightarrow> real" where
  "get_avg_user_satisfaction self =
     (if total_evs_served self = 0 then 0
      else total_user_satisfaction self / of_int (total_evs_served self))"

text \<open>\<open>xs.index(x)\<close>: the first position of \<open>x\<close>, \<open>None\<close> standing for the ValueError.\<close>

fun list_index :: "'a list \<Rightarrow> 'a \<Rightarrow> nat option" where
  "list_index [] x = None"
| "list_index (y # ys) x = (if y = x then Some 0 else map_option Suc (list_index ys x))"

definition spawn_ev :: "'b EV_Charger \<Rightarrow> 'b EV \<Rightarrow> 'b EV_Charger \<times> (error + nat)" where
  "spawn_ev self ev =
     (if \<not> n_evs_connected self < n_ports self then (self, Inl (AssertionError PortFree))
      else
        (case list_index (evs_connected self) None of
           None \<Rightarrow> (self, Inl ValueError)
         | Some index \<Rightarrow>
             (self\<lparr>evs_connected := (evs_connected self)[index := Some (ev\<lparr>ev_id := int index\<rparr>)],
                   n_evs_connected := n_evs_connected self + 1\<rparr>,
              Inr index)))"

definition reset :: "'b EV_Charger \<Rightarrow> 'b EV_Charger" where
  "reset self =
     self\<lparr>current_power_output := 0,
          current_total_amps := 0,
          evs_connected := replicate (nat (n_ports self)) None,
          n_evs_connected := 0,
          current_step := 0,
          total_energy_charged := 0,
          total_energy_discharged := 0,
          total_profits := 0,
          total_evs_served := 0,
          total_user_satisfaction := 0\<rparr>"

subsection \<open>A vehicle for concrete runs\<close>

text \<open>
  A simple instance of the vehicle interface, used to run the station on concrete inputs:
  the vehicle accepts every requested current, delivers \<open>amps \<times> voltage / 1000\<close> kW,
  and logs the requested currents (newest first). Its opaque part is the pair of its
  departure step and that log.
\<close>

definition logging_ev :: "(int \<times> real list) EV_model" where
  "logging_ev =
     \<lparr>ev_step = (\<lambda>ev amps vt.
        (case vt of
           None \<Rightarrow> (0, 0)
         | Some (v, t) \<Rightarrow> (amps * v / 1000, amps),
         ev\<lparr>internals := (fst (internals ev), amps # snd (internals ev))\<rparr>)),
      is_departing = (\<lambda>ev t. fst (internals ev) \<le> t),
      get_user_satisfaction = (\<lambda>ev. 1),
      ev_get_state = (\<lambda>ev t. [0, 0])\<rparr>"

definition parked :: "int \<Rightarrow> (int \<times> real list) EV" where
  "parked i = \<lparr>ev_id = i, internals = (100, [])\<rparr>"

text \<open>
  Stations with the constructor's default currents (8, 32, -8, -32 A) and 230 V, filled
  through \<open>spawn_ev\<close>.
\<close>

definition station :: "int \<Rightarrow> bool \<Rightarrow> (int \<times> real list) EV_Charger" where
  "station ports bidir =
     EV_Charger_init 0 0 0 None 8 32 (- 8) (- 32) 230 ports ''AC'' bidir 5 False"

definition station1 :: "bool \<Rightarrow> (int \<times> real list) EV_Charger" where
  "station1 bidir = fst (spawn_ev (station 1 bidir) (parked 7))"

definition station2 :: "bool \<Rightarrow> (int \<times> real list) EV_Charger" where
  "station2 bidir = fst (spawn_ev (fst (spawn_ev (station 2 bidir) (parked 7))) (parked 8))"

text \<open>
  The 2-port station that is not bidirectional, as it stands inside \<open>step\<close> after port 0
  was charged with action 0.6 (19.2 A, 4.416 kW).
\<close>

definition after_port0 :: "(int \<times> real list) EV_Charger" where
  "after_port0 = (station2 False)\<lparr>current_power_output := 4.416, current_total_amps := 19.2\<rparr>"

subsection \<open>The invariants of the data model\<close>

text \<open>
  The number of occupied slots, the invariant that the counter \<open>n_evs_connected\<close> equals
  it, and the invariant that the port array has \<open>n_ports\<close> slots (as \<open>[None] * n_ports\<close>
  builds it). A slot is a value of type \<open>'b EV option\<close>: empty or exactly one vehicle.
\<close>

definition occupied :: "'b EV_Charger \<Rightarrow> int" where
  "occupied self = int (length (filter (\<lambda>slot. slot \<noteq> None) (evs_connected self)))"

definition count_invariant :: "'b EV_Charger \<Rightarrow> bool" where
  "count_invariant self \<longleftrightarrow> n_evs_connected self = occupied self"

definition ports_invariant :: "'b EV_Charger \<Rightarrow> bool" where
  "ports_invariant self \<longleftrightarrow> length (evs_connected self) = nat (n_ports self)"

text \<open>The action list as the zeroing loop leaves it when every index has a port.\<close>

definition zeroed :: "'a option list \<Rightarrow> real list \<Rightarrow> real list" where
  "zeroed evs actions = map2 (\<lambda>slot a. if slot = None then 0 else a) evs actions"

text \<open>The 2-port bidirectional station with a vehicle on port 0 and port 1 empty.\<close>

definition station_half :: "(int \<times> real list) EV_Charger" where
  "station_half = fst (spawn_ev (station 2 True) (parked 7))"

text \<open>A vehicle that departs at step 0, and the 1-port bidirectional station holding it.\<close>

definition leaving :: "int \<Rightarrow> (int \<times> real list) EV" where
  "leaving i = \<lparr>ev_id = i, internals = (0, [])\<rparr>"

definition station_leaving :: "(int \<times> real list) EV_Charger" where
  "station_leaving = fst (spawn_ev (station 1 True) (leaving 7))"

text \<open>The full 3-port bidirectional station.\<close>

definition station3 :: "(int \<times> real list) EV_Charger" where
  "station3 =
     fst (spawn_ev (fst (spawn_ev (fst (spawn_ev (station 3 True) (parked 7))) (parked 8)))
            (parked 9))"

section \<open>Properties\<close>

subsection \<open>Normalization\<close>

lemma sum_list_map_divide:
  fixes c :: real
  shows "sum_list (map (\<lambda>a. a / c) xs) = sum_list xs / c"
  by (induction xs) (simp_all add: add_divide_distrib)

text \<open>
  What lines 128 to 134 compute, with \<open>S\<close> the sum of the list: above 1 every entry is
  divided by \<open>S\<close> and the result sums to exactly 1; below -1 every entry is divided by
  \<open>-S\<close> and the result sums to exactly -1; in both cases the ratio of any two entries is
  kept; otherwise the list is unchanged. (Numbers are exact reals here.)
\<close>

lemma normalize_actions_sum_and_ratios:
  fixes actions :: "real list"
  defines "S \<equiv> sum_list actions"
  shows "(S > 1 \<longrightarrow>
            normalize_actions actions = map (\<lambda>a. a / S) actions
          \<and> sum_list (normalize_actions actions) = 1
          \<and> (\<forall>i < length actions. \<forall>j < length actions.
                normalize_actions actions ! i * actions ! j
                  = normalize_actions actions ! j * actions ! i
              \<and> (actions ! j \<noteq> 0 \<longrightarrow>
                   normalize_actions actions ! i / normalize_actions actions ! j
                     = actions ! i / actions ! j)))
       \<and> (S < - 1 \<longrightarrow>
            normalize_actions actions = map (\<lambda>a. a / (- S)) actions
          \<and> sum_list (normalize_actions actions) = - 1
          \<and> (\<forall>i < length actions. \<forall>j < length actions.
                normalize_actions actions ! i * actions ! j
                  = normalize_actions actions ! j * actions ! i
              \<and> (actions ! j \<noteq> 0 \<longrightarrow>
                   normalize_actions actions ! i / normalize_actions actions ! j
                     = actions ! i / actions ! j)))
       \<and> (- 1 \<le> S \<and> S \<le> 1 \<longrightarrow> normalize_actions actions = actions)"
proof (intro conjI impI)
  assume big: "S > 1"
  then show eq: "normalize_actions actions = map (\<lambda>a. a / S) actions"
    by (simp add: normalize_actions_def S_def)
  have "sum_list (map (\<lambda>a. a / S) actions) = sum_list actions / S"
    by (rule sum_list_map_divide)
  also have "\<dots> = 1"
    using big by (simp add: S_def)
  finally show "sum_list (normalize_actions actions) = 1"
    by (simp only: eq)
  show "\<forall>i < length actions. \<forall>j < length actions.
                normalize_actions actions ! i * actions ! j
                  = normalize_actions actions ! j * actions ! i
              \<and> (actions ! j \<noteq> 0 \<longrightarrow>
                   normalize_actions actions ! i / normalize_actions actions ! j
                     = actions ! i / actions ! j)"
    using big by (simp add: eq)
next
  assume small: "S < - 1"
  then show eq: "normalize_actions actions = map (\<lambda>a. a / (- S)) actions"
    by (simp add: normalize_actions_def S_def)
  have "sum_list (map (\<lambda>a. a / (- S)) actions) = sum_list actions / (- S)"
    by (rule sum_list_map_divide)
  also have "\<dots> = - 1"
    using small by (simp add: S_def)
  finally show "sum_list (normalize_actions actions) = - 1"
    by (simp only: eq)
  show "\<forall>i < length actions. \<forall>j < length actions.
                normalize_actions actions ! i * actions ! j
                  = normalize_actions actions ! j * actions ! i
              \<and> (actions ! j \<noteq> 0 \<longrightarrow>
                   normalize_actions actions ! i / normalize_actions actions ! j
                     = actions ! i / actions ! j)"
    using small by (simp add: eq)
next
  assume "- 1 \<le> S \<and> S \<le> 1"
  then show "normalize_actions actions = actions"
    by (simp add: normalize_actions_def S_def)
qed

subsection \<open>Discharging on a station that is not bidirectional\<close>

text \<open>
  Claim C2 says that a negative action on an occupied port of a station built with
  \<open>bi_directional = False\<close> forces actual power and actual current to 0 and that \<open>step\<close>
  completes normally. Line 163 assigns \<open>actual_power\<close> twice and never \<open>actual_amps\<close>.
  On the 1-port station of the claim (32 A, 230 V, one vehicle, action -0.5) the read of
  \<open>actual_amps\<close> in line 176 finds it unbound and \<open>step\<close> raises UnboundLocalError: only
  the two prices were recorded. On a 2-port station with actions \<open>[0.5, -0.3]\<close> the
  second port adds the 16 A that the first port left in \<open>actual_amps\<close>, so the aggregate
  current is 32 A and not 16 A.
\<close>

theorem step_nonbidirectional_discharge_unbound:
  "step logging_ev (station1 False) [- 0.5] 0.3 0.2 =
     ([- 0.5],
      (station1 False)\<lparr>current_charge_price := 0.3, current_discharge_price := 0.2\<rparr>,
      Inl UnboundLocalError)
   \<and> current_total_amps (fst (snd (step logging_ev (station2 False) [0.5, - 0.3] 0.3 0.2))) = 32"
  by code_simp

subsection \<open>Facts about the parts of \<open>step\<close>\<close>

lemma length_zero_empty_ports: "length (fst (zero_empty_ports evs acts)) = length acts"
  by (induction evs acts rule: zero_empty_ports.induct) (auto split: prod.splits sum.splits)

lemma length_normalize_actions: "length (normalize_actions acts) = length acts"
  by (simp add: normalize_actions_def)

lemma fold_invariant:
  assumes "\<And>x s. Q s \<Longrightarrow> Q (f x s)" and "Q s"
  shows "Q (fold f xs s)"
  using assms(2) by (induction xs arbitrary: s) (simp_all add: assms(1))

lemma check_port_Inr:
  assumes "check_port i s L = (s', Inr L')"
  shows "s' = s \<and> L' = L \<and> current_total_amps s \<le> max_charge_current s + 0.0001"
  using assms
  by (auto simp: check_port_def split: if_splits sum.splits option.splits)

lemma check_port_state: "fst (check_port i s L) = s"
  by (auto simp: check_port_def split: if_splits sum.splits option.splits)

lemma step_port_Inr:
  assumes "step_port M cp dp i a s L = (s', Inr L')"
  shows "current_total_amps s' \<le> max_charge_current s' + 0.0001"
  using assms
  by (auto simp: step_port_def Let_def split: if_splits sum.splits prod.splits
           dest: check_port_Inr)

lemma step_port_over:
  assumes "step_port M cp dp i a s L = (s', r)"
      and "max_charge_current s' + 0.0001 < current_total_amps s'"
  shows "\<exists>e. r = Inl e"
proof (cases r)
  case (Inl e)
  then show ?thesis by simp
next
  case (Inr L')
  with assms(1) have "step_port M cp dp i a s L = (s', Inr L')" by simp
  from step_port_Inr [OF this] assms(2) show ?thesis by simp
qed

lemma port_loop_Inr:
  assumes "port_loop M cp dp xs s L = (s', Inr L')" and "xs \<noteq> []"
  shows "current_total_amps s' \<le> max_charge_current s' + 0.0001"
  using assms
proof (induction xs arbitrary: s L)
  case Nil
  then show ?case by simp
next
  case (Cons x xs)
  obtain i a where x: "x = (i, a)" by (cases x)
  obtain s1 r1 where sp: "step_port M cp dp i a s L = (s1, r1)"
    by (cases "step_port M cp dp i a s L")
  with Cons.prems(1) x obtain L1 where r1: "r1 = Inr L1"
    by (cases r1) auto
  with Cons.prems(1) x sp have rest: "port_loop M cp dp xs s1 L1 = (s', Inr L')"
    by simp
  show ?case
  proof (cases "xs = []")
    case True
    with rest have "s' = s1" by simp
    moreover from sp r1 have "step_port M cp dp i a s L = (s1, Inr L1)" by simp
    ultimately show ?thesis using step_port_Inr by blast
  next
    case False
    with rest show ?thesis by (rule Cons.IH)
  qed
qed

lemma depart_port_amps:
  "current_total_amps (fst (depart_port M i st)) = current_total_amps (fst st)
   \<and> max_charge_current (fst (depart_port M i st)) = max_charge_current (fst st)"
  by (cases st) (simp add: depart_port_def Let_def split: option.splits)

lemma departure_scan_amps:
  "current_total_amps (fst (departure_scan M s)) = current_total_amps s
   \<and> max_charge_current (fst (departure_scan M s)) = max_charge_current s"
  unfolding departure_scan_def
  by (rule fold_invariant [where Q = "\<lambda>st. current_total_amps (fst st) = current_total_amps s
        \<and> max_charge_current (fst st) = max_charge_current s"])
     (simp_all add: depart_port_amps)

lemma step_InrE:
  assumes "step M self actions cp dp = (actions', self', Inr (p, us, ninv))"
  obtains s2 L2 s3 where
    "int (length actions) = n_ports self"
    "zero_empty_ports (evs_connected self) actions = (actions', Inr ninv)"
    "port_loop M cp dp (enumerate 0 (normalize_actions actions'))
       (self\<lparr>current_power_output := 0, current_total_amps := 0,
             current_charge_price := cp, current_discharge_price := dp\<rparr>)
       \<lparr>profit = 0, actual_power = None, actual_amps = None\<rparr> = (s2, Inr L2)"
    "p = profit L2"
    "departure_scan M (s2\<lparr>total_profits := total_profits s2 + profit L2\<rparr>) = (s3, us)"
    "self' = s3\<lparr>current_step := current_step s3 + 1\<rparr>"
  using assms
  by (auto simp: step_def Let_def split: if_splits sum.splits prod.splits)

subsection \<open>The limit on the aggregate current\<close>

text \<open>
  Claim C1. After a port was processed, an aggregate current above
  \<open>max_charge_current + 0.0001\<close> makes that iteration raise, and the port loop stops
  there with the same error. Hence, when \<open>step\<close> returns normally on a station with at
  least one port (the port count of the data model is at least 1), the station's
  \<open>current_total_amps\<close> after the call is at most \<open>max_charge_current + 0.0001\<close>.
\<close>

theorem step_current_limit:
  "(step_port M cp dp i a s L = (s1, r) \<and> max_charge_current s1 + 0.0001 < current_total_amps s1
      \<longrightarrow> (\<exists>e. r = Inl e \<and> port_loop M cp dp ((i, a) # rest) s L = (s1, Inl e)))
   \<and> (step M self actions cp dp = (actions', self', Inr res) \<and> 0 < n_ports self
      \<longrightarrow> current_total_amps self' \<le> max_charge_current self' + 0.0001)"
proof (intro conjI impI)
  assume "step_port M cp dp i a s L = (s1, r) \<and> max_charge_current s1 + 0.0001 < current_total_amps s1"
  then have sp: "step_port M cp dp i a s L = (s1, r)"
    and over: "max_charge_current s1 + 0.0001 < current_total_amps s1" by simp_all
  from step_port_over [OF sp over] obtain e where "r = Inl e" ..
  with sp show "\<exists>e. r = Inl e \<and> port_loop M cp dp ((i, a) # rest) s L = (s1, Inl e)"
    by simp
next
  assume "step M self actions cp dp = (actions', self', Inr res) \<and> 0 < n_ports self"
  then have st: "step M self actions cp dp = (actions', self', Inr res)"
    and pos: "0 < n_ports self" by simp_all
  obtain p us ninv where res: "res = (p, us, ninv)" by (cases res)
  from st [unfolded res] obtain s2 L2 s3 where
    len: "int (length actions) = n_ports self"
    and z: "zero_empty_ports (evs_connected self) actions = (actions', Inr ninv)"
    and pl: "port_loop M cp dp (enumerate 0 (normalize_actions actions'))
       (self\<lparr>current_power_output := 0, current_total_amps := 0,
             current_charge_price := cp, current_discharge_price := dp\<rparr>)
       \<lparr>profit = 0, actual_power = None, actual_amps = None\<rparr> = (s2, Inr L2)"
    and ds: "departure_scan M (s2\<lparr>total_profits := total_profits s2 + profit L2\<rparr>) = (s3, us)"
    and self': "self' = s3\<lparr>current_step := current_step s3 + 1\<rparr>"
    by (rule step_InrE)
  have "length actions' = length actions"
    using length_zero_empty_ports [of "evs_connected self" actions] z by simp
  with pos len have "enumerate 0 (normalize_actions actions') \<noteq> []"
    by (auto simp: length_normalize_actions simp flip: length_0_conv)
  with pl have "current_total_amps s2 \<le> max_charge_current s2 + 0.0001"
    using port_loop_Inr by blast
  moreover have "s3 = fst (departure_scan M (s2\<lparr>total_profits := total_profits s2 + profit L2\<rparr>))"
    using ds by simp
  ultimately show "current_total_amps self' \<le> max_charge_current self' + 0.0001"
    by (simp add: self' departure_scan_amps)
qed

text \<open>
  The theorem at concrete inputs. On the 2-port station that is not bidirectional, port 1
  with action -0.1 adds the 19.2 A left by port 0, the aggregate reaches 38.4 A and the
  iteration raises; the whole \<open>step\<close> with actions \<open>[0.6, -0.1]\<close> raises the same
  error. On the bidirectional station, \<open>[0.6, 0.6]\<close> returns normally with 32 A.
\<close>

theorem step_current_limit_witness:
  "step_port logging_ev 0.3 0.2 1 (- 0.1) after_port0
       \<lparr>profit = 1.3248, actual_power = Some 4.416, actual_amps = Some 19.2\<rparr>
     = (after_port0\<lparr>current_total_amps := 38.4\<rparr>, Inl Exception)
   \<and> snd (snd (step logging_ev (station2 False) [0.6, - 0.1] 0.3 0.2)) = Inl Exception
   \<and> snd (snd (step logging_ev (station2 True) [0.6, 0.6] 0.3 0.2)) = Inr (2.208, [], 0)
   \<and> 0 < n_ports (station2 True)
   \<and> current_total_amps (fst (snd (step logging_ev (station2 True) [0.6, 0.6] 0.3 0.2)))
       \<le> max_charge_current (fst (snd (step logging_ev (station2 True) [0.6, 0.6] 0.3 0.2)))
            + 0.0001"
proof -
  have a: "step_port logging_ev 0.3 0.2 1 (- 0.1) after_port0
       \<lparr>profit = 1.3248, actual_power = Some 4.416, actual_amps = Some 19.2\<rparr>
     = (after_port0\<lparr>current_total_amps := 38.4\<rparr>, Inl Exception)"
    by code_simp
  have b: "max_charge_current (after_port0\<lparr>current_total_amps := 38.4\<rparr>) + 0.0001
        < current_total_amps (after_port0\<lparr>current_total_amps := 38.4\<rparr>)"
    by code_simp
  have c: "snd (snd (step logging_ev (station2 False) [0.6, - 0.1] 0.3 0.2)) = Inl Exception"
    by code_simp
  have d: "snd (snd (step logging_ev (station2 True) [0.6, 0.6] 0.3 0.2)) = Inr (2.208, [], 0)"
    by code_simp
  have e: "0 < n_ports (station2 True)"
    by code_simp
  obtain acts s' where f: "step logging_ev (station2 True) [0.6, 0.6] 0.3 0.2
      = (acts, s', Inr (2.208, [], 0))"
    using d by (cases "step logging_ev (station2 True) [0.6, 0.6] 0.3 0.2") auto
  from step_current_limit [of logging_ev "0.3" "0.2" 1 "- 0.1" after_port0
       "\<lparr>profit = 1.3248, actual_power = Some 4.416, actual_amps = Some 19.2\<rparr>"
       "after_port0\<lparr>current_total_amps := 38.4\<rparr>" "Inl Exception" "[]"
       "station2 True" "[0.6, 0.6]" acts s' "(2.208, [], 0)"] a b e f
  have "current_total_amps s' \<le> max_charge_current s' + 0.0001"
    by blast
  with a c d e f show ?thesis by simp
qed

subsection \<open>The zeroing of the actions of empty ports\<close>

lemma zero_empty_ports_eq:
  "length acts \<le> length evs \<Longrightarrow>
   zero_empty_ports evs acts =
     (zeroed evs acts, Inr (int (length (filter (\<lambda>slot. slot = None) (take (length acts) evs)))))"
  by (induction evs acts rule: zero_empty_ports.induct) (auto simp: zeroed_def)

lemma zero_empty_ports_short:
  "length evs < length acts \<Longrightarrow> snd (zero_empty_ports evs acts) = Inl IndexError"
  by (induction evs acts rule: zero_empty_ports.induct) (auto split: prod.splits sum.splits)

lemma zero_empty_ports_Inr:
  assumes "zero_empty_ports evs acts = (acts', Inr n)"
  shows "length acts \<le> length evs"
proof (rule ccontr)
  assume "\<not> length acts \<le> length evs"
  then have "snd (zero_empty_ports evs acts) = Inl IndexError"
    by (simp add: zero_empty_ports_short)
  with assms show False by simp
qed

lemma zeroed_nth:
  "i < length acts \<Longrightarrow> i < length evs \<Longrightarrow>
   zeroed evs acts ! i = (if evs ! i = None then 0 else acts ! i)"
  by (simp add: zeroed_def)

lemma length_zeroed: "length (zeroed evs acts) = min (length evs) (length acts)"
  by (simp add: zeroed_def)

lemma normalize_actions_nth_zero:
  "i < length acts \<Longrightarrow> acts ! i = 0 \<Longrightarrow> normalize_actions acts ! i = 0"
  by (simp add: normalize_actions_def)

lemma round5_zero: "round5 0 = 0"
  by (simp add: round5_def round_half_even_def)

text \<open>
  Claim C6. Whenever \<open>step\<close> returns normally on a station whose port array has
  \<open>n_ports\<close> slots, the third component of the result is exactly the number of empty
  ports at the time of the call, and for every empty port the entry of the action list
  is 0 after the call, as is the normalized and rounded action the port loop sees,
  whatever value the caller supplied there.
\<close>

theorem step_counts_empty_ports:
  assumes "step M self actions cp dp = (actions', self', Inr (p, us, n))"
      and "ports_invariant self"
  shows "n = int (length (filter (\<lambda>slot. slot = None) (evs_connected self)))
       \<and> (\<forall>i < length actions. evs_connected self ! i = None \<longrightarrow>
             actions' ! i = 0 \<and> round5 (normalize_actions actions' ! i) = 0)"
proof -
  from assms(1) obtain s2 L2 s3 where
    len: "int (length actions) = n_ports self"
    and z: "zero_empty_ports (evs_connected self) actions = (actions', Inr n)"
    by (rule step_InrE)
  from len assms(2) have eq: "length (evs_connected self) = length actions"
    by (simp add: ports_invariant_def)
  with z have a: "actions' = zeroed (evs_connected self) actions"
    and n: "n = int (length (filter (\<lambda>slot. slot = None) (evs_connected self)))"
    by (simp_all add: zero_empty_ports_eq)
  have "actions' ! i = 0 \<and> round5 (normalize_actions actions' ! i) = 0"
    if "i < length actions" "evs_connected self ! i = None" for i
  proof -
    from that eq have "actions' ! i = 0" by (simp add: a zeroed_nth)
    moreover from that eq have "i < length actions'" by (simp add: a length_zeroed)
    ultimately show ?thesis by (simp add: normalize_actions_nth_zero round5_zero)
  qed
  with n show ?thesis by blast
qed

text \<open>
  The theorem on the 2-port station with port 1 empty and actions \<open>[0.5, 0.9]\<close>: one
  invalid action is counted and entry 1 is 0.
\<close>

theorem step_counts_empty_ports_witness:
  "ports_invariant station_half
   \<and> snd (snd (step logging_ev station_half [0.5, 0.9] 0.3 0.2)) = Inr (1.104, [], 1)
   \<and> int (length (filter (\<lambda>slot. slot = None) (evs_connected station_half))) = 1
   \<and> evs_connected station_half ! 1 = None
   \<and> fst (step logging_ev station_half [0.5, 0.9] 0.3 0.2) ! 1 = 0"
proof -
  have a: "ports_invariant station_half"
    by code_simp
  have b: "snd (snd (step logging_ev station_half [0.5, 0.9] 0.3 0.2)) = Inr (1.104, [], 1)"
    by code_simp
  have c: "evs_connected station_half ! 1 = None"
    by code_simp
  obtain acts s' where d: "step logging_ev station_half [0.5, 0.9] 0.3 0.2
      = (acts, s', Inr (1.104, [], 1))"
    using b by (cases "step logging_ev station_half [0.5, 0.9] 0.3 0.2") auto
  from step_counts_empty_ports [OF d a] c
  have "1 = int (length (filter (\<lambda>slot. slot = None) (evs_connected station_half)))"
    and "acts ! 1 = 0"
    by simp_all
  with a b c d show ?thesis by simp
qed

text \<open>
  Claim C10. \<open>step\<close> writes into the caller's list: on a station whose port array has
  \<open>n_ports\<close> slots, the list the caller holds after the call (normal return or raise) has
  0 at every port that was empty at call time and the caller's value elsewhere, provided
  its length is \<open>n_ports\<close>; a list of another length fails the length assertion before
  any write and is unchanged. The normalization reads that same list.
\<close>

theorem step_mutates_actions:
  assumes "ports_invariant self"
  shows "fst (step M self actions cp dp) =
           (if int (length actions) = n_ports self then zeroed (evs_connected self) actions
            else actions)
       \<and> (int (length actions) = n_ports self \<longrightarrow>
            length (fst (step M self actions cp dp)) = length actions
          \<and> (\<forall>i < length actions.
                fst (step M self actions cp dp) ! i =
                  (if evs_connected self ! i = None then 0 else actions ! i)))"
proof (cases "int (length actions) = n_ports self")
  case False
  then show ?thesis by (simp add: step_def)
next
  case True
  with assms have eq: "length (evs_connected self) = length actions"
    by (simp add: ports_invariant_def)
  then have "zero_empty_ports (evs_connected self) actions =
     (zeroed (evs_connected self) actions,
      Inr (int (length (filter (\<lambda>slot. slot = None) (take (length actions) (evs_connected self))))))"
    by (simp add: zero_empty_ports_eq)
  with True have "fst (step M self actions cp dp) = zeroed (evs_connected self) actions"
    by (simp add: step_def Let_def split: prod.splits sum.splits)
  with True eq show ?thesis by (simp add: zeroed_nth length_zeroed)
qed

text \<open>The theorem on the 2-port station with port 1 empty.\<close>

theorem step_mutates_actions_witness:
  "ports_invariant station_half
   \<and> fst (step logging_ev station_half [0.5, 0.9] 0.3 0.2) = [0.5, 0]
   \<and> fst (step logging_ev station_half [0.5] 0.3 0.2) = [0.5]"
proof -
  have a: "ports_invariant station_half"
    by code_simp
  have b: "(if int (length [0.5, 0.9 :: real]) = n_ports station_half
            then zeroed (evs_connected station_half) [0.5, 0.9] else [0.5, 0.9]) = [0.5, 0]"
    by code_simp
  have c: "(if int (length [0.5 :: real]) = n_ports station_half
            then zeroed (evs_connected station_half) [0.5] else [0.5]) = [0.5]"
    by code_simp
  from step_mutates_actions [OF a, of logging_ev "[0.5, 0.9]" "0.3" "0.2"]
       step_mutates_actions [OF a, of logging_ev "[0.5]" "0.3" "0.2"] a b c
  show ?thesis by simp
qed

subsection \<open>What the port loop leaves unchanged\<close>

lemma filter_update_Some:
  "i < length xs \<Longrightarrow> xs ! i \<noteq> None \<Longrightarrow>
   length (filter (\<lambda>slot. slot \<noteq> None) (xs[i := Some v])) =
   length (filter (\<lambda>slot. slot \<noteq> None) xs)"
  by (induction xs arbitrary: i) (auto split: nat.splits)

lemma filter_update_None:
  "i < length xs \<Longrightarrow> xs ! i \<noteq> None \<Longrightarrow>
   Suc (length (filter (\<lambda>slot. slot \<noteq> None) (xs[i := None]))) =
   length (filter (\<lambda>slot. slot \<noteq> None) xs)"
  by (induction xs arbitrary: i) (auto split: nat.splits)

lemma filter_update_fill:
  "i < length xs \<Longrightarrow> xs ! i = None \<Longrightarrow>
   length (filter (\<lambda>slot. slot \<noteq> None) (xs[i := Some v])) =
   Suc (length (filter (\<lambda>slot. slot \<noteq> None) xs))"
  by (induction xs arbitrary: i) (auto split: nat.splits)

lemma get_slot_Inr: "get_slot xs i = Inr x \<longleftrightarrow> i < length xs \<and> xs ! i = x"
  by (auto simp: get_slot_def)

lemma discharge_account_frame:
  "evs_connected (fst (discharge_account dp s L)) = evs_connected s
   \<and> n_evs_connected (fst (discharge_account dp s L)) = n_evs_connected s
   \<and> n_ports (fst (discharge_account dp s L)) = n_ports s"
  by (simp add: discharge_account_def Let_def split: option.splits)

lemma charge_port_frame:
  "occupied (fst (charge_port M cp i a s L)) = occupied s
   \<and> length (evs_connected (fst (charge_port M cp i a s L))) = length (evs_connected s)
   \<and> n_evs_connected (fst (charge_port M cp i a s L)) = n_evs_connected s
   \<and> n_ports (fst (charge_port M cp i a s L)) = n_ports s"
  by (auto simp: charge_port_def Let_def occupied_def get_slot_Inr filter_update_Some
           simp del: not_None_eq split: sum.splits option.splits prod.splits)

lemma discharge_port_frame:
  "occupied (fst (discharge_port M dp i a s L)) = occupied s
   \<and> length (evs_connected (fst (discharge_port M dp i a s L))) = length (evs_connected s)
   \<and> n_evs_connected (fst (discharge_port M dp i a s L)) = n_evs_connected s
   \<and> n_ports (fst (discharge_port M dp i a s L)) = n_ports s"
  by (auto simp: discharge_port_def occupied_def get_slot_Inr filter_update_Some
                 discharge_account_frame
           simp del: not_None_eq split: sum.splits option.splits prod.splits)

lemma dispatch_port_frame:
  "occupied (fst (dispatch_port M cp dp i a s L)) = occupied s
   \<and> length (evs_connected (fst (dispatch_port M cp dp i a s L))) = length (evs_connected s)
   \<and> n_evs_connected (fst (dispatch_port M cp dp i a s L)) = n_evs_connected s
   \<and> n_ports (fst (dispatch_port M cp dp i a s L)) = n_ports s"
proof (cases "a = 0")
  case False
  then show ?thesis
    by (simp add: dispatch_port_def charge_port_frame discharge_port_frame)
next
  case True
  show ?thesis
  proof (cases "get_slot (evs_connected s) i")
    case (Inl e)
    with True show ?thesis by (simp add: dispatch_port_def)
  next
    case (Inr slot)
    show ?thesis
    proof (cases slot)
      case None
      with True Inr show ?thesis by (simp add: dispatch_port_def)
    next
      case (Some ev)
      with Inr have "i < length (evs_connected s)" "evs_connected s ! i \<noteq> None"
        by (simp_all add: get_slot_Inr)
      with True Inr Some show ?thesis
        by (simp add: dispatch_port_def occupied_def filter_update_Some del: not_None_eq)
    qed
  qed
qed

lemma step_port_frame:
  "occupied (fst (step_port M cp dp i a s L)) = occupied s
   \<and> length (evs_connected (fst (step_port M cp dp i a s L))) = length (evs_connected s)
   \<and> n_evs_connected (fst (step_port M cp dp i a s L)) = n_evs_connected s
   \<and> n_ports (fst (step_port M cp dp i a s L)) = n_ports s"
proof -
  obtain s1 r1 where d: "dispatch_port M cp dp i (round5 a) s L = (s1, r1)"
    by (cases "dispatch_port M cp dp i (round5 a) s L")
  with dispatch_port_frame [of M cp dp i "round5 a" s L]
  have "occupied s1 = occupied s \<and> length (evs_connected s1) = length (evs_connected s)
      \<and> n_evs_connected s1 = n_evs_connected s \<and> n_ports s1 = n_ports s"
    by simp
  with d show ?thesis
    by (auto simp: step_port_def Let_def check_port_state split: sum.splits)
qed

lemma port_loop_frame:
  "occupied (fst (port_loop M cp dp xs s L)) = occupied s
   \<and> length (evs_connected (fst (port_loop M cp dp xs s L))) = length (evs_connected s)
   \<and> n_evs_connected (fst (port_loop M cp dp xs s L)) = n_evs_connected s
   \<and> n_ports (fst (port_loop M cp dp xs s L)) = n_ports s"
proof (induction xs arbitrary: s L)
  case Nil
  show ?case by simp
next
  case (Cons x xs)
  obtain i a where x: "x = (i, a)" by (cases x)
  obtain s1 r1 where sp: "step_port M cp dp i a s L = (s1, r1)"
    by (cases "step_port M cp dp i a s L")
  with step_port_frame [of M cp dp i a s L]
  have fr: "occupied s1 = occupied s \<and> length (evs_connected s1) = length (evs_connected s)
      \<and> n_evs_connected s1 = n_evs_connected s \<and> n_ports s1 = n_ports s"
    by simp
  show ?case
  proof (cases r1)
    case (Inl e)
    with x sp fr show ?thesis by simp
  next
    case (Inr L1)
    with x sp fr Cons.IH [of s1 L1] show ?thesis by simp
  qed
qed

subsection \<open>The occupancy invariants\<close>

lemma depart_port_invariants:
  assumes "n_evs_connected (fst st) = occupied (fst st)"
  shows "n_evs_connected (fst (depart_port M i st)) = occupied (fst (depart_port M i st))"
proof (cases st)
  case (Pair s us)
  show ?thesis
  proof (cases "i < length (evs_connected s) \<and> evs_connected s ! i \<noteq> None")
    case False
    with Pair assms show ?thesis
      by (auto simp: depart_port_def split: option.splits)
  next
    case True
    then have "int (length (filter (\<lambda>slot. slot \<noteq> None) (evs_connected s))) - 1 =
        int (length (filter (\<lambda>slot. slot \<noteq> None) ((evs_connected s)[i := None])))"
      using filter_update_None [of i "evs_connected s"] by simp
    with Pair assms True show ?thesis
      by (auto simp: depart_port_def Let_def occupied_def simp del: not_None_eq
               split: option.splits)
  qed
qed

lemma depart_port_length:
  "length (evs_connected (fst (depart_port M i st))) = length (evs_connected (fst st))
   \<and> n_ports (fst (depart_port M i st)) = n_ports (fst st)"
  by (cases st) (simp add: depart_port_def Let_def split: option.splits)

lemma departure_scan_count:
  assumes "n_evs_connected s = occupied s"
  shows "n_evs_connected (fst (departure_scan M s)) = occupied (fst (departure_scan M s))"
  unfolding departure_scan_def
  by (rule fold_invariant [where Q = "\<lambda>st. n_evs_connected (fst st) = occupied (fst st)"])
     (simp_all add: depart_port_invariants assms)

lemma departure_scan_length:
  "length (evs_connected (fst (departure_scan M s))) = length (evs_connected s)
   \<and> n_ports (fst (departure_scan M s)) = n_ports s"
  unfolding departure_scan_def
  by (rule fold_invariant [where Q = "\<lambda>st. length (evs_connected (fst st)) = length (evs_connected s)
        \<and> n_ports (fst st) = n_ports s"])
     (simp_all add: depart_port_length)

text \<open>The station that \<open>step\<close> leaves, by the place where it stopped.\<close>

lemma step_state_cases:
  fixes self :: "'b EV_Charger" and cp dp :: real
  defines "s0 \<equiv> self\<lparr>current_power_output := 0, current_total_amps := 0,
                       current_charge_price := cp, current_discharge_price := dp\<rparr>"
  obtains
    (early) "fst (snd (step M self actions cp dp)) = s0"
  | (loop) xs L where
      "fst (snd (step M self actions cp dp)) = fst (port_loop M cp dp xs s0 L)"
  | (scan) xs L s2 p s3 where
      "s2 = fst (port_loop M cp dp xs s0 L)"
      "s3 = fst (departure_scan M (s2\<lparr>total_profits := total_profits s2 + p\<rparr>))"
      "fst (snd (step M self actions cp dp)) = s3\<lparr>current_step := current_step s3 + 1\<rparr>"
proof (cases "int (length actions) \<noteq> n_ports self")
  case True
  then have "fst (snd (step M self actions cp dp)) = s0"
    by (simp add: step_def s0_def)
  then show ?thesis by (rule early)
next
  case False
  obtain acts zr where z: "zero_empty_ports (evs_connected self) actions = (acts, zr)"
    by (cases "zero_empty_ports (evs_connected self) actions")
  show ?thesis
  proof (cases zr)
    case (Inl e)
    with False z have "fst (snd (step M self actions cp dp)) = s0"
      by (simp add: step_def s0_def)
    then show ?thesis by (rule early)
  next
    case (Inr n)
    let ?xs = "enumerate 0 (normalize_actions acts)"
    let ?L = "\<lparr>profit = 0, actual_power = None, actual_amps = None\<rparr>"
    obtain s2 r2 where pl: "port_loop M cp dp ?xs s0 ?L = (s2, r2)"
      by (cases "port_loop M cp dp ?xs s0 ?L")
    show ?thesis
    proof (cases r2)
      case (Inl e)
      with False z Inr pl have "fst (snd (step M self actions cp dp)) = fst (port_loop M cp dp ?xs s0 ?L)"
        by (simp add: step_def s0_def)
      then show ?thesis by (rule loop)
    next
      case r2: (Inr L2)
      define s3 where "s3 = fst (departure_scan M (s2\<lparr>total_profits := total_profits s2 + profit L2\<rparr>))"
      from False z Inr pl r2 have "fst (snd (step M self actions cp dp)) = s3\<lparr>current_step := current_step s3 + 1\<rparr>"
        by (simp add: step_def s0_def s3_def split: prod.splits)
      moreover from pl have "s2 = fst (port_loop M cp dp ?xs s0 ?L)" by simp
      ultimately show ?thesis using s3_def by (rule scan [rotated 2])
    qed
  qed
qed

lemma step_count_invariant:
  assumes "count_invariant self"
  shows "count_invariant (fst (snd (step M self actions cp dp)))"
proof -
  let ?s0 = "self\<lparr>current_power_output := 0, current_total_amps := 0,
                       current_charge_price := cp, current_discharge_price := dp\<rparr>"
  from assms have s0: "n_evs_connected ?s0 = occupied ?s0"
    by (simp add: count_invariant_def occupied_def)
  show ?thesis
  proof (cases rule: step_state_cases [where M = M and self = self and actions = actions
      and cp = cp and dp = dp])
    case early
    with s0 show ?thesis by (simp add: count_invariant_def)
  next
    case (loop xs L)
    with s0 port_loop_frame [of M cp dp xs ?s0 L] show ?thesis
      by (simp add: count_invariant_def)
  next
    case (scan xs L s2 p s3)
    from s0 port_loop_frame [of M cp dp xs ?s0 L] scan(1)
    have "n_evs_connected s2 = occupied s2" by simp
    then have "n_evs_connected (s2\<lparr>total_profits := total_profits s2 + p\<rparr>)
          = occupied (s2\<lparr>total_profits := total_profits s2 + p\<rparr>)"
      by (simp add: occupied_def)
    then have "n_evs_connected s3 = occupied s3"
      unfolding scan(2) by (rule departure_scan_count)
    with scan(3) show ?thesis by (simp add: count_invariant_def occupied_def)
  qed
qed

lemma step_ports_invariant:
  assumes "ports_invariant self"
  shows "ports_invariant (fst (snd (step M self actions cp dp)))"
proof -
  let ?s0 = "self\<lparr>current_power_output := 0, current_total_amps := 0,
                       current_charge_price := cp, current_discharge_price := dp\<rparr>"
  show ?thesis
  proof (cases rule: step_state_cases [where M = M and self = self and actions = actions
      and cp = cp and dp = dp])
    case early
    with assms show ?thesis by (simp add: ports_invariant_def)
  next
    case (loop xs L)
    with assms port_loop_frame [of M cp dp xs ?s0 L] show ?thesis
      by (simp add: ports_invariant_def)
  next
    case (scan xs L s2 p s3)
    from assms port_loop_frame [of M cp dp xs ?s0 L] scan(1)
    have "length (evs_connected s2) = nat (n_ports s2)" by (simp add: ports_invariant_def)
    with scan(2) departure_scan_length [of M "s2\<lparr>total_profits := total_profits s2 + p\<rparr>"]
    have "length (evs_connected s3) = nat (n_ports s3)" by simp
    with scan(3) show ?thesis by (simp add: ports_invariant_def)
  qed
qed

lemma list_index_Some:
  "list_index xs x = Some i \<Longrightarrow> i < length xs \<and> xs ! i = x \<and> (\<forall>j < i. xs ! j \<noteq> x)"
proof (induction xs arbitrary: i)
  case Nil
  then show ?case by simp
next
  case (Cons y ys)
  show ?case
  proof (cases "y = x")
    case True
    with Cons.prems show ?thesis by simp
  next
    case False
    with Cons.prems obtain k where k: "list_index ys x = Some k" "i = Suc k"
      by auto
    from Cons.IH [OF k(1)] False k(2) show ?thesis
      by (auto simp: nth_Cons split: nat.splits)
  qed
qed

lemma all_occupied:
  assumes "list_index xs None = None"
  shows "length (filter (\<lambda>slot. slot \<noteq> None) xs) = length xs"
  using assms by (induction xs) (auto split: if_splits simp del: not_None_eq)

lemma spawn_ev_count_invariant:
  assumes "count_invariant s"
  shows "count_invariant (fst (spawn_ev s ev))"
proof (cases "list_index (evs_connected s) None")
  case None
  with assms show ?thesis by (simp add: spawn_ev_def)
next
  case (Some idx)
  from list_index_Some [OF Some]
  have "length (filter (\<lambda>slot. slot \<noteq> None) ((evs_connected s)[idx := Some (ev\<lparr>ev_id := int idx\<rparr>)])) =
      Suc (length (filter (\<lambda>slot. slot \<noteq> None) (evs_connected s)))"
    by (simp add: filter_update_fill del: not_None_eq)
  with assms Some show ?thesis
    by (simp add: spawn_ev_def count_invariant_def occupied_def del: not_None_eq)
qed

lemma spawn_ev_ports_invariant:
  assumes "ports_invariant s"
  shows "ports_invariant (fst (spawn_ev s ev))"
  using assms by (simp add: spawn_ev_def ports_invariant_def split: option.splits)

text \<open>
  Claim C8. The counter \<open>n_evs_connected\<close> equals the number of non-empty slots of the
  port array after construction, and \<open>step\<close> (whether it returns or raises, its
  departure scan included), \<open>spawn_ev\<close> and \<open>reset\<close> preserve that equality. The same
  holds for the number of slots being \<open>n_ports\<close>. A slot is a value of type
  \<open>'b EV option\<close>, so it holds no vehicle or exactly one.
\<close>

theorem occupied_count_invariant:
  "count_invariant
     (EV_Charger_init ident bus tr geo minc maxc mind maxd volt ports ctype bidir ts verb)
   \<and> ports_invariant
     (EV_Charger_init ident bus tr geo minc maxc mind maxd volt ports ctype bidir ts verb)
   \<and> (count_invariant s \<longrightarrow> count_invariant (fst (snd (step M s actions cp dp))))
   \<and> (ports_invariant s \<longrightarrow> ports_invariant (fst (snd (step M s actions cp dp))))
   \<and> (count_invariant s \<longrightarrow> count_invariant (fst (spawn_ev s ev)))
   \<and> (ports_invariant s \<longrightarrow> ports_invariant (fst (spawn_ev s ev)))
   \<and> count_invariant (reset s)
   \<and> ports_invariant (reset s)"
  by (simp add: step_count_invariant step_ports_invariant spawn_ev_count_invariant
        spawn_ev_ports_invariant)
     (simp add: count_invariant_def ports_invariant_def occupied_def EV_Charger_init_def reset_def)

text \<open>
  The theorem on the 1-port station whose vehicle departs at step 0: \<open>step\<close> frees the
  port in its departure scan, and the counter follows from 1 to 0.
\<close>

theorem occupied_count_invariant_witness:
  "count_invariant station_leaving \<and> ports_invariant station_leaving
   \<and> n_evs_connected station_leaving = 1
   \<and> snd (snd (step logging_ev station_leaving [0.5] 0.3 0.2)) = Inr (1.104, [1], 0)
   \<and> evs_connected (fst (snd (step logging_ev station_leaving [0.5] 0.3 0.2))) = [None]
   \<and> n_evs_connected (fst (snd (step logging_ev station_leaving [0.5] 0.3 0.2))) = 0
   \<and> count_invariant (fst (snd (step logging_ev station_leaving [0.5] 0.3 0.2)))
   \<and> ports_invariant (fst (snd (step logging_ev station_leaving [0.5] 0.3 0.2)))
   \<and> count_invariant (fst (spawn_ev station_leaving (parked 9)))
   \<and> ports_invariant (fst (spawn_ev station_leaving (parked 9)))"
proof -
  have a: "count_invariant station_leaving" and b: "ports_invariant station_leaving"
    and c: "n_evs_connected station_leaving = 1"
    by code_simp+
  have d: "snd (snd (step logging_ev station_leaving [0.5] 0.3 0.2)) = Inr (1.104, [1], 0)"
    by code_simp
  have e: "evs_connected (fst (snd (step logging_ev station_leaving [0.5] 0.3 0.2))) = [None]"
    by code_simp
  have f: "n_evs_connected (fst (snd (step logging_ev station_leaving [0.5] 0.3 0.2))) = 0"
    by code_simp
  from occupied_count_invariant [of 0 0 0 None 8 32 "- 8" "- 32" 230 1 "''AC''" True 5 False
         station_leaving logging_ev "[0.5]" "0.3" "0.2" "parked 9"] a b
  have "count_invariant (fst (snd (step logging_ev station_leaving [0.5] 0.3 0.2)))
      \<and> ports_invariant (fst (snd (step logging_ev station_leaving [0.5] 0.3 0.2)))
      \<and> count_invariant (fst (spawn_ev station_leaving (parked 9)))
      \<and> ports_invariant (fst (spawn_ev station_leaving (parked 9)))"
    by blast
  with a b c d e f show ?thesis by simp
qed

subsection \<open>\<open>spawn_ev\<close>\<close>

text \<open>
  Claim C7. On a station that satisfies the two invariants above: if the occupied count
  is below \<open>n_ports\<close>, \<open>spawn_ev\<close> returns the lowest index of an empty port, puts the
  vehicle there with its \<open>id\<close> set to that index, and increments the occupied count by
  one; if the occupied count equals \<open>n_ports\<close>, \<open>spawn_ev\<close> fails its assertion and
  leaves the station as it was.
\<close>

theorem spawn_ev_first_empty_port:
  assumes "count_invariant s" and "ports_invariant s"
  shows "(n_evs_connected s < n_ports s \<longrightarrow>
           (\<exists>idx. spawn_ev s ev =
                     (s\<lparr>evs_connected := (evs_connected s)[idx := Some (ev\<lparr>ev_id := int idx\<rparr>)],
                        n_evs_connected := n_evs_connected s + 1\<rparr>,
                      Inr idx)
                 \<and> idx < length (evs_connected s)
                 \<and> evs_connected s ! idx = None
                 \<and> (\<forall>j < idx. evs_connected s ! j \<noteq> None)
                 \<and> evs_connected (fst (spawn_ev s ev)) ! idx = Some (ev\<lparr>ev_id := int idx\<rparr>)
                 \<and> n_evs_connected (fst (spawn_ev s ev)) = n_evs_connected s + 1))
       \<and> (n_evs_connected s = n_ports s \<longrightarrow>
            spawn_ev s ev = (s, Inl (AssertionError PortFree)))"
proof (intro conjI impI)
  assume less: "n_evs_connected s < n_ports s"
  have "list_index (evs_connected s) None \<noteq> None"
  proof
    assume "list_index (evs_connected s) None = None"
    then have "length (filter (\<lambda>slot. slot \<noteq> None) (evs_connected s)) = length (evs_connected s)"
      by (rule all_occupied)
    with assms have "n_evs_connected s = int (nat (n_ports s))"
      by (simp add: count_invariant_def ports_invariant_def occupied_def del: not_None_eq)
    with less show False by (simp split: if_splits)
  qed
  then obtain idx where idx: "list_index (evs_connected s) None = Some idx" by auto
  from list_index_Some [OF idx] less idx
  show "\<exists>idx. spawn_ev s ev =
                     (s\<lparr>evs_connected := (evs_connected s)[idx := Some (ev\<lparr>ev_id := int idx\<rparr>)],
                        n_evs_connected := n_evs_connected s + 1\<rparr>,
                      Inr idx)
                 \<and> idx < length (evs_connected s)
                 \<and> evs_connected s ! idx = None
                 \<and> (\<forall>j < idx. evs_connected s ! j \<noteq> None)
                 \<and> evs_connected (fst (spawn_ev s ev)) ! idx = Some (ev\<lparr>ev_id := int idx\<rparr>)
                 \<and> n_evs_connected (fst (spawn_ev s ev)) = n_evs_connected s + 1"
    by (intro exI [of _ idx]) (simp add: spawn_ev_def del: not_None_eq)
next
  assume "n_evs_connected s = n_ports s"
  then show "spawn_ev s ev = (s, Inl (AssertionError PortFree))"
    by (simp add: spawn_ev_def)
qed

text \<open>
  The theorem on the 2-port station with port 1 empty (the vehicle goes to port 1 with
  \<open>id\<close> 1) and on the full 2-port station (the assertion fails).
\<close>

theorem spawn_ev_first_empty_port_witness:
  "count_invariant station_half \<and> ports_invariant station_half
   \<and> n_evs_connected station_half < n_ports station_half
   \<and> snd (spawn_ev station_half (parked 9)) = Inr 1
   \<and> evs_connected (fst (spawn_ev station_half (parked 9)))
       = [Some (parked 0), Some (parked 1)]
   \<and> n_evs_connected (fst (spawn_ev station_half (parked 9))) = 2
   \<and> count_invariant (station2 True) \<and> ports_invariant (station2 True)
   \<and> n_evs_connected (station2 True) = n_ports (station2 True)
   \<and> spawn_ev (station2 True) (parked 9) = (station2 True, Inl (AssertionError PortFree))"
proof -
  have a: "count_invariant station_half" and b: "ports_invariant station_half"
    and c: "n_evs_connected station_half < n_ports station_half"
    and d: "snd (spawn_ev station_half (parked 9)) = Inr 1"
    and e: "evs_connected (fst (spawn_ev station_half (parked 9)))
       = [Some (parked 0), Some (parked 1)]"
    and f: "n_evs_connected (fst (spawn_ev station_half (parked 9))) = 2"
    and g: "count_invariant (station2 True)" and h: "ports_invariant (station2 True)"
    and i: "n_evs_connected (station2 True) = n_ports (station2 True)"
    by code_simp+
  from spawn_ev_first_empty_port [OF g h, of "parked 9"] i
  have "spawn_ev (station2 True) (parked 9) = (station2 True, Inl (AssertionError PortFree))"
    by blast
  moreover from spawn_ev_first_empty_port [OF a b, of "parked 9"] c
  have "n_evs_connected (fst (spawn_ev station_half (parked 9))) = n_evs_connected station_half + 1"
    by blast
  ultimately show ?thesis using a b c d e f g h i by simp
qed

subsection \<open>Discharging on a bidirectional station\<close>

text \<open>
  Claim C5 says that the current requested from the vehicle is
  \<open>action \<times> |max_charge_current|\<close> clamped so that its magnitude does not exceed
  \<open>|min_discharge_current|\<close>. On the 1-port bidirectional station (32 A, minimum
  discharge current -8 A) the action -0.5 requests -16 A, as the vehicle's log shows:
  a magnitude of 16 A, above 8 A. And the action -0.1, whose -3.2 A is within 8 A in
  magnitude, requests -8 A. Lines 166 and 167 replace a request above
  \<open>min_discharge_current\<close> (a weaker discharge) by \<open>min_discharge_current\<close>, and leave a
  stronger one as it is.
\<close>

theorem discharge_request_counterexample:
  "bi_directional (station1 True)
   \<and> evs_connected (station1 True) = [Some (parked 0)]
   \<and> min_discharge_current (station1 True) = - 8
   \<and> discharge_amps (station1 True) (- 0.5) = - 16
   \<and> \<bar>discharge_amps (station1 True) (- 0.5)\<bar> > \<bar>min_discharge_current (station1 True)\<bar>
   \<and> evs_connected (fst (snd (step logging_ev (station1 True) [- 0.5] 0.3 0.2)))
       = [Some \<lparr>ev_id = 0, internals = (100, [- 16])\<rparr>]
   \<and> \<bar>- 0.1 * \<bar>max_charge_current (station1 True)\<bar>\<bar> < \<bar>min_discharge_current (station1 True)\<bar>
   \<and> discharge_amps (station1 True) (- 0.1) = - 8"
  by code_simp

text \<open>
  Claim C5 as amended. On a bidirectional station, for an occupied port whose rounded
  action is negative, the current requested from the vehicle's step is the smaller of
  \<open>action \<times> |max_charge_current|\<close> and \<open>min_discharge_current\<close> (as signed values, so
  never above \<open>min_discharge_current\<close>), with the station's voltage and charger type.
  With \<open>(p, a)\<close> the power and current the vehicle returns, the step's profit grows by
  \<open>|p| \<times> discharge_price\<close>, the cumulative energy discharged by \<open>|p|\<close>, the aggregate
  power by \<open>p\<close> and the aggregate current by \<open>a\<close>.
\<close>

theorem discharge_port_bidirectional:
  assumes "bi_directional s"
      and "i < length (evs_connected s)"
      and "evs_connected s ! i = Some ev"
      and "action < 0"
      and "ev_step M ev (min (action * \<bar>max_charge_current s\<bar>) (min_discharge_current s))
             (Some (voltage s, charger_type s)) = ((p, a), ev')"
  shows "discharge_amps s action = min (action * \<bar>max_charge_current s\<bar>) (min_discharge_current s)
       \<and> dispatch_port M cp dp i action s L =
           (s\<lparr>evs_connected := (evs_connected s)[i := Some ev'],
              total_energy_discharged := total_energy_discharged s + \<bar>p\<bar>,
              current_power_output := current_power_output s + p,
              current_total_amps := current_total_amps s + a\<rparr>,
            Inr (L\<lparr>profit := profit L + \<bar>p\<bar> * dp,
                   actual_power := Some p,
                   actual_amps := Some a\<rparr>))"
proof
  show amps: "discharge_amps s action = min (action * \<bar>max_charge_current s\<bar>) (min_discharge_current s)"
    by (simp add: discharge_amps_def Let_def min_def)
  from assms(2,3) have slot: "get_slot (evs_connected s) i = Inr (Some ev)"
    by (simp add: get_slot_def)
  from assms(5) amps
  have "ev_step M ev (discharge_amps s action) (Some (voltage s, charger_type s)) = ((p, a), ev')"
    by simp
  with assms(1,4) slot show "dispatch_port M cp dp i action s L =
           (s\<lparr>evs_connected := (evs_connected s)[i := Some ev'],
              total_energy_discharged := total_energy_discharged s + \<bar>p\<bar>,
              current_power_output := current_power_output s + p,
              current_total_amps := current_total_amps s + a\<rparr>,
            Inr (L\<lparr>profit := profit L + \<bar>p\<bar> * dp,
                   actual_power := Some p,
                   actual_amps := Some a\<rparr>))"
    by (simp add: dispatch_port_def discharge_port_def discharge_account_def)
qed

text \<open>The theorem on the 1-port bidirectional station with action -0.5.\<close>

theorem discharge_port_bidirectional_witness:
  "bi_directional (station1 True)
   \<and> 0 < length (evs_connected (station1 True))
   \<and> evs_connected (station1 True) ! 0 = Some (parked 0)
   \<and> ev_step logging_ev (parked 0) (- 16) (Some (230, ''AC''))
        = ((- 3.68, - 16), \<lparr>ev_id = 0, internals = (100, [- 16])\<rparr>)
   \<and> dispatch_port logging_ev 0.3 0.2 0 (- 0.5) (station1 True)
        \<lparr>profit = 0, actual_power = None, actual_amps = None\<rparr> =
       ((station1 True)
          \<lparr>evs_connected := [Some \<lparr>ev_id = 0, internals = (100, [- 16])\<rparr>],
           total_energy_discharged := 3.68,
           current_power_output := - 3.68,
           current_total_amps := - 16\<rparr>,
        Inr \<lparr>profit = 0.736, actual_power = Some (- 3.68), actual_amps = Some (- 16)\<rparr>)"
proof -
  have a: "bi_directional (station1 True)"
    and b: "0 < length (evs_connected (station1 True))"
    and c: "evs_connected (station1 True) ! 0 = Some (parked 0)"
    and d: "(- 0.5 :: real) < 0"
    by code_simp+
  have e: "ev_step logging_ev (parked 0)
             (min (- 0.5 * \<bar>max_charge_current (station1 True)\<bar>)
                  (min_discharge_current (station1 True)))
             (Some (voltage (station1 True), charger_type (station1 True)))
           = ((- 3.68, - 16), \<lparr>ev_id = 0, internals = (100, [- 16])\<rparr>)"
    by code_simp
  have f: "ev_step logging_ev (parked 0) (- 16) (Some (230, ''AC''))
        = ((- 3.68, - 16), \<lparr>ev_id = 0, internals = (100, [- 16])\<rparr>)"
    by code_simp
  have g: "(station1 True)
          \<lparr>evs_connected := (evs_connected (station1 True))
               [0 := Some \<lparr>ev_id = 0, internals = (100, [- 16])\<rparr>],
           total_energy_discharged := total_energy_discharged (station1 True) + \<bar>- 3.68\<bar>,
           current_power_output := current_power_output (station1 True) + - 3.68,
           current_total_amps := current_total_amps (station1 True) + - 16\<rparr>
      = (station1 True)
          \<lparr>evs_connected := [Some \<lparr>ev_id = 0, internals = (100, [- 16])\<rparr>],
           total_energy_discharged := 3.68,
           current_power_output := - 3.68,
           current_total_amps := - 16\<rparr>"
    by code_simp
  from discharge_port_bidirectional [OF a b c d e, of "0.3" "0.2"
         "\<lparr>profit = 0, actual_power = None, actual_amps = None\<rparr>"]
  have "dispatch_port logging_ev 0.3 0.2 0 (- 0.5) (station1 True)
        \<lparr>profit = 0, actual_power = None, actual_amps = None\<rparr> =
       ((station1 True)
          \<lparr>evs_connected := (evs_connected (station1 True))
               [0 := Some \<lparr>ev_id = 0, internals = (100, [- 16])\<rparr>],
           total_energy_discharged := total_energy_discharged (station1 True) + \<bar>- 3.68\<bar>,
           current_power_output := current_power_output (station1 True) + - 3.68,
           current_total_amps := current_total_amps (station1 True) + - 16\<rparr>,
        Inr \<lparr>profit = 0.736, actual_power = Some (- 3.68), actual_amps = Some (- 16)\<rparr>)"
    by simp
  with a b c f g show ?thesis by simp
qed

subsection \<open>\<open>reset\<close>\<close>

text \<open>
  What \<open>reset\<close> does: the station becomes the one \<open>__init__\<close> builds from the same
  configuration, except that \<open>current_charge_price\<close> and \<open>current_discharge_price\<close> keep
  their values. The average user satisfaction is then 0, and \<open>get_state\<close> is the two
  prices followed by two zeros per port.
\<close>

lemma reset_effect:
  "reset s =
     (EV_Charger_init (charger_id s) (connected_bus s) (connected_transformer s) (geo_location s)
        (min_charge_current s) (max_charge_current s) (min_discharge_current s)
        (max_discharge_current s) (voltage s) (n_ports s) (charger_type s) (bi_directional s)
        (timescale s) (verbose s))
       \<lparr>current_charge_price := current_charge_price s,
        current_discharge_price := current_discharge_price s\<rparr>
   \<and> get_avg_user_satisfaction (reset s) = 0
   \<and> get_state M (reset s) =
       [current_charge_price s, current_discharge_price s] @ replicate (2 * nat (n_ports s)) 0"
proof -
  have "concat (map (\<lambda>slot. case slot of Some ev \<Rightarrow> ev_get_state M ev t | None \<Rightarrow> [0, 0])
          (replicate n None)) = replicate (2 * n) (0 :: real)" for n t
    by (induction n) simp_all
  then show ?thesis
    by (simp add: reset_def EV_Charger_init_def get_avg_user_satisfaction_def get_state_def)
qed

text \<open>
  Claim C9 says that \<open>reset\<close> restores all mutable status and statistics fields to the
  zero or empty state; the docstring of \<open>reset\<close> says that it resets the status to the
  initial state, and \<open>__init__\<close> sets both prices to 0 among the status fields. After a
  \<open>step\<close> with prices 0.3 and 0.2 on the 1-port station, \<open>reset\<close> leaves the two prices
  at 0.3 and 0.2: the station is the freshly built one except for them, and \<open>get_state\<close>
  is \<open>[0.3, 0.2, 0, 0]\<close>.
\<close>

theorem reset_keeps_prices:
  "current_charge_price (station 1 True) = 0
   \<and> current_discharge_price (station 1 True) = 0
   \<and> snd (snd (step logging_ev (station1 True) [0.5] 0.3 0.2)) = Inr (1.104, [], 0)
   \<and> current_charge_price (reset (fst (snd (step logging_ev (station1 True) [0.5] 0.3 0.2)))) = 0.3
   \<and> current_discharge_price (reset (fst (snd (step logging_ev (station1 True) [0.5] 0.3 0.2)))) = 0.2
   \<and> get_state logging_ev (reset (fst (snd (step logging_ev (station1 True) [0.5] 0.3 0.2))))
       = [0.3, 0.2, 0, 0]
   \<and> reset (fst (snd (step logging_ev (station1 True) [0.5] 0.3 0.2)))
       = (station 1 True)\<lparr>current_charge_price := 0.3, current_discharge_price := 0.2\<rparr>"
  by code_simp

subsection \<open>The range assertion on the rounded actions\<close>

lemma round_half_even_le_iff:
  assumes "even n"
  shows "round_half_even y \<le> n \<longleftrightarrow> y \<le> of_int n + 1 / 2"
proof -
  define f where "f = \<lfloor>y\<rfloor>"
  have lo: "of_int f \<le> y" and hi: "y < of_int f + 1"
    unfolding f_def by linarith+
  consider "f \<le> n - 1" | "f = n" | "n + 1 \<le> f" by linarith
  then show ?thesis
  proof cases
    case 1
    then have "(of_int f :: real) \<le> of_int n - 1" by (metis of_int_1 of_int_diff of_int_le_iff)
    with hi 1 show ?thesis
      by (auto simp: round_half_even_def Let_def f_def [symmetric])
  next
    case 2
    with assms lo hi show ?thesis
      by (auto simp: round_half_even_def Let_def f_def [symmetric])
  next
    case 3
    then have "of_int n + 1 \<le> (of_int f :: real)" by (metis of_int_1 of_int_add of_int_le_iff)
    with lo 3 show ?thesis
      by (auto simp: round_half_even_def Let_def f_def [symmetric])
  qed
qed

lemma round_half_even_ge_iff:
  assumes "even n"
  shows "n \<le> round_half_even y \<longleftrightarrow> of_int n - 1 / 2 \<le> y"
proof -
  define f where "f = \<lfloor>y\<rfloor>"
  have lo: "of_int f \<le> y" and hi: "y < of_int f + 1"
    unfolding f_def by linarith+
  consider "f \<le> n - 2" | "f = n - 1" | "n \<le> f" by linarith
  then show ?thesis
  proof cases
    case 1
    then have "(of_int f :: real) \<le> of_int n - 2" by (metis of_int_numeral of_int_diff of_int_le_iff)
    with hi 1 show ?thesis
      by (auto simp: round_half_even_def Let_def f_def [symmetric])
  next
    case 2
    with assms have "odd f" by simp
    with 2 lo hi show ?thesis
      by (auto simp: round_half_even_def Let_def f_def [symmetric])
  next
    case 3
    then have "of_int n \<le> (of_int f :: real)" by simp
    with lo 3 show ?thesis
      by (auto simp: round_half_even_def Let_def f_def [symmetric])
  qed
qed

lemma round5_range_iff:
  "- 1 \<le> round5 x \<and> round5 x \<le> 1 \<longleftrightarrow> \<bar>x\<bar> \<le> 1.000005"
proof -
  have "round_half_even (x * 100000) \<le> 100000 \<longleftrightarrow> x * 100000 \<le> of_int 100000 + 1 / 2"
    by (rule round_half_even_le_iff) simp
  moreover have "- 100000 \<le> round_half_even (x * 100000)
      \<longleftrightarrow> of_int (- 100000) - 1 / 2 \<le> x * 100000"
    by (rule round_half_even_ge_iff) simp
  moreover have "round5 x \<le> 1 \<longleftrightarrow> round_half_even (x * 100000) \<le> 100000"
    by (simp add: round5_def)
  moreover have "- 1 \<le> round5 x \<longleftrightarrow> - 100000 \<le> round_half_even (x * 100000)"
    by (simp add: round5_def) linarith
  ultimately show ?thesis by (simp add: abs_le_iff) linarith
qed

lemma member_le_sum_list_real:
  fixes xs :: "real list"
  assumes "\<forall>x \<in> set xs. 0 \<le> x" and "a \<in> set xs"
  shows "a \<le> sum_list xs"
  using assms
proof (induction xs)
  case Nil
  then show ?case by simp
next
  case (Cons x xs)
  then have "0 \<le> sum_list xs" by (simp add: sum_list_nonneg)
  with Cons show ?case by auto
qed

lemma sum_list_le_member_real:
  fixes xs :: "real list"
  assumes "\<forall>x \<in> set xs. x \<le> 0" and "a \<in> set xs"
  shows "sum_list xs \<le> a"
  using assms
proof (induction xs)
  case Nil
  then show ?case by simp
next
  case (Cons x xs)
  then have "sum_list xs \<le> 0" by (simp add: sum_list_nonpos)
  with Cons show ?case by auto
qed

lemma normalize_actions_abs_iff:
  fixes c :: real
  shows "(\<forall>b \<in> set (normalize_actions z). \<bar>b\<bar> \<le> c)
     \<longleftrightarrow> (\<forall>a \<in> set z. \<bar>a\<bar> \<le> c * max 1 \<bar>sum_list z\<bar>)"
proof -
  let ?S = "sum_list z"
  consider (big) "?S > 1" | (small) "?S < - 1" | (mid) "- 1 \<le> ?S" "?S \<le> 1" by linarith
  then show ?thesis
  proof cases
    case big
    then have m: "max 1 \<bar>?S\<bar> = ?S" by simp
    have "\<bar>a / ?S\<bar> \<le> c \<longleftrightarrow> \<bar>a\<bar> \<le> c * ?S" for a
      using big by (simp add: abs_divide pos_divide_le_eq)
    with big show ?thesis by (simp add: normalize_actions_def m)
  next
    case small
    then have m: "max 1 \<bar>?S\<bar> = - ?S" by simp
    have "\<bar>- a / ?S\<bar> \<le> c \<longleftrightarrow> \<bar>a\<bar> \<le> c * (- ?S)" for a
    proof -
      have "\<bar>- a / ?S\<bar> = \<bar>a\<bar> / (- ?S)" using small by (simp add: abs_divide)
      moreover have "\<bar>a\<bar> / (- ?S) \<le> c \<longleftrightarrow> \<bar>a\<bar> \<le> c * (- ?S)"
        using small by (intro pos_divide_le_eq) simp
      ultimately show ?thesis by simp
    qed
    with small show ?thesis by (simp add: normalize_actions_def m del: minus_divide_left)
  next
    case mid
    then have "max 1 \<bar>?S\<bar> = 1" by simp
    with mid show ?thesis by (simp add: normalize_actions_def)
  qed
qed

lemma same_sign_abs_le_sum:
  fixes z :: "real list"
  assumes "(\<forall>a \<in> set z. - 1 \<le> a \<and> a \<le> 1) \<or> (\<forall>a \<in> set z. 0 \<le> a) \<or> (\<forall>a \<in> set z. a \<le> 0)"
      and "a \<in> set z"
  shows "\<bar>a\<bar> \<le> max 1 \<bar>sum_list z\<bar>"
  using assms(1)
proof (elim disjE)
  assume "\<forall>a \<in> set z. - 1 \<le> a \<and> a \<le> 1"
  with assms(2) have "\<bar>a\<bar> \<le> 1" by (auto simp: abs_le_iff)
  then show ?thesis by simp
next
  assume nn: "\<forall>a \<in> set z. 0 \<le> a"
  with assms(2) have "0 \<le> a" "a \<le> sum_list z" by (auto intro: member_le_sum_list_real)
  then show ?thesis by simp
next
  assume np: "\<forall>a \<in> set z. a \<le> 0"
  with assms(2) have "a \<le> 0" "sum_list z \<le> a" by (auto intro: sum_list_le_member_real)
  then show ?thesis by simp
qed

lemma zero_empty_ports_error:
  "snd (zero_empty_ports evs acts) = Inl e \<Longrightarrow> e = IndexError"
  by (induction evs acts arbitrary: e rule: zero_empty_ports.induct)
     (auto split: prod.splits sum.splits)

lemma check_port_no_assert: "snd (check_port i s L) \<noteq> Inl (AssertionError x)"
  by (simp add: check_port_def get_slot_def split: option.splits)

lemma discharge_account_no_assert: "snd (discharge_account dp s L) \<noteq> Inl (AssertionError x)"
  by (simp add: discharge_account_def Let_def split: option.splits)

lemma charge_port_no_assert: "snd (charge_port M cp i a s L) \<noteq> Inl (AssertionError x)"
  by (simp add: charge_port_def Let_def get_slot_def split: option.splits prod.splits)

lemma discharge_port_no_assert: "snd (discharge_port M dp i a s L) \<noteq> Inl (AssertionError x)"
  by (simp add: discharge_port_def get_slot_def discharge_account_no_assert
           split: option.splits prod.splits)

lemma dispatch_port_no_assert:
  "snd (dispatch_port M cp dp i a s L) \<noteq> Inl (AssertionError x)"
  by (simp add: dispatch_port_def get_slot_def charge_port_no_assert discharge_port_no_assert
           split: option.splits)

lemma step_port_no_assert:
  assumes "- 1 \<le> round5 a \<and> round5 a \<le> 1"
  shows "snd (step_port M cp dp i a s L) \<noteq> Inl (AssertionError x)"
proof -
  obtain s1 r1 where d: "dispatch_port M cp dp i (round5 a) s L = (s1, r1)"
    by (cases "dispatch_port M cp dp i (round5 a) s L")
  with dispatch_port_no_assert [of M cp dp i "round5 a" s L x]
  have "r1 \<noteq> Inl (AssertionError x)" by simp
  with assms d show ?thesis
    by (cases r1) (simp_all add: step_port_def check_port_no_assert)
qed

lemma port_loop_no_assert:
  assumes "\<forall>a \<in> snd ` set xs. - 1 \<le> round5 a \<and> round5 a \<le> 1"
  shows "snd (port_loop M cp dp xs s L) \<noteq> Inl (AssertionError x)"
  using assms
proof (induction xs arbitrary: s L)
  case Nil
  show ?case by simp
next
  case (Cons y ys)
  obtain i a where y: "y = (i, a)" by (cases y)
  obtain s1 r1 where sp: "step_port M cp dp i a s L = (s1, r1)"
    by (cases "step_port M cp dp i a s L")
  from Cons.prems y have "- 1 \<le> round5 a \<and> round5 a \<le> 1" by simp
  from step_port_no_assert [OF this, of M cp dp i s L x] sp
  have r1: "r1 \<noteq> Inl (AssertionError x)" by simp
  show ?case
  proof (cases r1)
    case (Inl e)
    with y sp r1 show ?thesis by simp
  next
    case (Inr L1)
    from Cons.prems have "\<forall>a \<in> snd ` set ys. - 1 \<le> round5 a \<and> round5 a \<le> 1" by simp
    from Cons.IH [OF this, of s1 L1] y sp Inr show ?thesis by simp
  qed
qed

lemma step_port_Inr_range:
  assumes "step_port M cp dp i a s L = (s', Inr L')"
  shows "- 1 \<le> round5 a \<and> round5 a \<le> 1"
proof (rule ccontr)
  assume "\<not> (- 1 \<le> round5 a \<and> round5 a \<le> 1)"
  then have "step_port M cp dp i a s L = (s, Inl (AssertionError ActionRange))"
    by (simp add: step_port_def Let_def)
  with assms show False by simp
qed

lemma port_loop_Inr_range:
  assumes "port_loop M cp dp xs s L = (s', Inr L')"
  shows "\<forall>a \<in> snd ` set xs. - 1 \<le> round5 a \<and> round5 a \<le> 1"
  using assms
proof (induction xs arbitrary: s L)
  case Nil
  show ?case by simp
next
  case (Cons y ys)
  obtain i a where y: "y = (i, a)" by (cases y)
  obtain s1 r1 where sp: "step_port M cp dp i a s L = (s1, r1)"
    by (cases "step_port M cp dp i a s L")
  with Cons.prems y obtain L1 where r1: "r1 = Inr L1"
    by (cases r1) auto
  with Cons.prems y sp have rest: "port_loop M cp dp ys s1 L1 = (s', Inr L')"
    by simp
  from sp r1 have "- 1 \<le> round5 a \<and> round5 a \<le> 1"
    using step_port_Inr_range by blast
  with Cons.IH [OF rest] y show ?case by simp
qed

text \<open>
  Claim C4 says that for every action vector the in-range assertion of \<open>step\<close> never
  fails. It does fail: on the 2-port station with both ports occupied, the actions
  \<open>[2, -2]\<close> sum to 0, so they are not normalized, and the rounded action 2 of port 0
  fails \<open>assert action >= -1 and action <= 1\<close>.
\<close>

theorem step_action_range_counterexample:
  "step logging_ev (station2 True) [2, - 2] 0.3 0.2 =
     ([2, - 2],
      (station2 True)\<lparr>current_charge_price := 0.3, current_discharge_price := 0.2\<rparr>,
      Inl (AssertionError ActionRange))
   \<and> sum_list [2, - 2 :: real] = 0
   \<and> round5 (normalize_actions [2, - 2] ! 0) = 2"
  by code_simp

text \<open>
  Claim C4 as amended. Let \<open>z\<close> be the action vector after the empty ports were zeroed
  and \<open>S\<close> its sum. Every action lies in \<open>[-1, 1]\<close> after normalization and rounding to
  5 decimal places exactly when every entry of \<open>z\<close> is at most
  \<open>1.000005 \<times> max(1, |S|)\<close> in magnitude (the factor is what the rounding absorbs). Under
  that condition \<open>step\<close> does not fail the in-range assertion, and \<open>step\<close> returns
  normally only under it. The condition holds in particular when every entry lies in
  \<open>[-1, 1]\<close>, when no entry is negative and when no entry is positive, so entries beyond
  1 in magnitude are allowed on input.
\<close>

theorem step_action_range:
  fixes self :: "'b EV_Charger" and actions :: "real list"
  defines "z \<equiv> fst (zero_empty_ports (evs_connected self) actions)"
  shows "((\<forall>b \<in> set (normalize_actions z). - 1 \<le> round5 b \<and> round5 b \<le> 1)
            \<longleftrightarrow> (\<forall>a \<in> set z. \<bar>a\<bar> \<le> 1.000005 * max 1 \<bar>sum_list z\<bar>))
       \<and> ((\<forall>a \<in> set z. \<bar>a\<bar> \<le> 1.000005 * max 1 \<bar>sum_list z\<bar>)
            \<longrightarrow> snd (snd (step M self actions cp dp)) \<noteq> Inl (AssertionError ActionRange))
       \<and> (step M self actions cp dp = (actions', self', Inr res)
            \<longrightarrow> (\<forall>a \<in> set z. \<bar>a\<bar> \<le> 1.000005 * max 1 \<bar>sum_list z\<bar>))
       \<and> ((\<forall>a \<in> set z. - 1 \<le> a \<and> a \<le> 1) \<or> (\<forall>a \<in> set z. 0 \<le> a) \<or> (\<forall>a \<in> set z. a \<le> 0)
            \<longrightarrow> (\<forall>a \<in> set z. \<bar>a\<bar> \<le> 1.000005 * max 1 \<bar>sum_list z\<bar>))"
proof (intro conjI impI)
  have "(\<forall>b \<in> set (normalize_actions z). - 1 \<le> round5 b \<and> round5 b \<le> 1)
      \<longleftrightarrow> (\<forall>b \<in> set (normalize_actions z). \<bar>b\<bar> \<le> 1.000005)"
    by (simp only: round5_range_iff)
  then show iff: "(\<forall>b \<in> set (normalize_actions z). - 1 \<le> round5 b \<and> round5 b \<le> 1)
            \<longleftrightarrow> (\<forall>a \<in> set z. \<bar>a\<bar> \<le> 1.000005 * max 1 \<bar>sum_list z\<bar>)"
    by (simp only: normalize_actions_abs_iff)
  define s0 where "s0 = self\<lparr>current_power_output := 0, current_total_amps := 0,
                    current_charge_price := cp, current_discharge_price := dp\<rparr>"
  define L0 where "L0 = \<lparr>profit = 0, actual_power = None, actual_amps = None\<rparr>"
  have img: "snd ` set (enumerate 0 (normalize_actions z)) = set (normalize_actions z)"
    by (simp flip: set_map)
  obtain zr where zp: "zero_empty_ports (evs_connected self) actions = (z, zr)"
    by (cases "zero_empty_ports (evs_connected self) actions") (simp add: z_def)
  {
    assume "\<forall>a \<in> set z. \<bar>a\<bar> \<le> 1.000005 * max 1 \<bar>sum_list z\<bar>"
    with iff have "\<forall>b \<in> set (normalize_actions z). - 1 \<le> round5 b \<and> round5 b \<le> 1"
      by simp
    with img have "\<forall>a \<in> snd ` set (enumerate 0 (normalize_actions z)).
        - 1 \<le> round5 a \<and> round5 a \<le> 1"
      by simp
    then have loop: "snd (port_loop M cp dp (enumerate 0 (normalize_actions z)) s0 L0)
        \<noteq> Inl (AssertionError ActionRange)"
      by (rule port_loop_no_assert)
    show "snd (snd (step M self actions cp dp)) \<noteq> Inl (AssertionError ActionRange)"
    proof (cases "int (length actions) \<noteq> n_ports self")
      case True
      then show ?thesis by (simp add: step_def)
    next
      case False
      show ?thesis
      proof (cases zr)
        case (Inl e)
        with zp have "e = IndexError"
          using zero_empty_ports_error [of "evs_connected self" actions e] by simp
        with False zp Inl show ?thesis by (simp add: step_def)
      next
        case (Inr n)
        obtain s2 r2 where pl:
          "port_loop M cp dp (enumerate 0 (normalize_actions z)) s0 L0 = (s2, r2)"
          by (cases "port_loop M cp dp (enumerate 0 (normalize_actions z)) s0 L0")
        with loop have r2: "r2 \<noteq> Inl (AssertionError ActionRange)" by simp
        show ?thesis
        proof (cases r2)
          case (Inl e)
          with r2 have "e \<noteq> AssertionError ActionRange" by simp
          with False zp Inr pl Inl show ?thesis
            by (simp add: step_def s0_def L0_def)
        next
          case r: (Inr L2)
          with False zp Inr pl show ?thesis
            by (simp add: step_def s0_def L0_def split: prod.splits)
        qed
      qed
    qed
  }
  {
    assume st: "step M self actions cp dp = (actions', self', Inr res)"
    obtain p us n where res: "res = (p, us, n)" by (cases res)
    from st [unfolded res] obtain s2 L2 where
      z': "zero_empty_ports (evs_connected self) actions = (actions', Inr n)"
      and pl: "port_loop M cp dp (enumerate 0 (normalize_actions actions')) s0 L0 = (s2, Inr L2)"
      unfolding s0_def L0_def by (rule step_InrE)
    from z' have "actions' = z" by (simp add: z_def)
    with pl have "\<forall>a \<in> snd ` set (enumerate 0 (normalize_actions z)).
        - 1 \<le> round5 a \<and> round5 a \<le> 1"
      using port_loop_Inr_range by blast
    with img have "\<forall>b \<in> set (normalize_actions z). - 1 \<le> round5 b \<and> round5 b \<le> 1"
      by simp
    with iff show "\<forall>a \<in> set z. \<bar>a\<bar> \<le> 1.000005 * max 1 \<bar>sum_list z\<bar>" by simp
  }
  {
    assume fam: "(\<forall>a \<in> set z. - 1 \<le> a \<and> a \<le> 1) \<or> (\<forall>a \<in> set z. 0 \<le> a)
        \<or> (\<forall>a \<in> set z. a \<le> 0)"
    show "\<forall>a \<in> set z. \<bar>a\<bar> \<le> 1.000005 * max 1 \<bar>sum_list z\<bar>"
    proof
      fix a
      assume "a \<in> set z"
      with fam have "\<bar>a\<bar> \<le> max 1 \<bar>sum_list z\<bar>" by (rule same_sign_abs_le_sum)
      moreover have "max 1 \<bar>sum_list z\<bar> \<le> 1.000005 * max 1 \<bar>sum_list z\<bar>" by simp
      ultimately show "\<bar>a\<bar> \<le> 1.000005 * max 1 \<bar>sum_list z\<bar>" by linarith
    qed
  }
qed

text \<open>
  The theorem on the full 3-port station with actions \<open>[1.5, -0.1, 2]\<close>: mixed signs and
  entries above 1, sum 3.4; the rounded normalized actions are
  \<open>[0.44118, -0.02941, 0.58824]\<close> and \<open>step\<close> returns normally.
\<close>

theorem step_action_range_witness:
  "fst (zero_empty_ports (evs_connected station3) [1.5, - 0.1, 2]) = [1.5, - 0.1, 2]
   \<and> sum_list [1.5, - 0.1, 2 :: real] = 3.4
   \<and> list_all (\<lambda>a. \<bar>a\<bar> \<le> 1.000005 * max 1 \<bar>sum_list [1.5, - 0.1, 2 :: real]\<bar>) [1.5, - 0.1, 2]
   \<and> map round5 (normalize_actions [1.5, - 0.1, 2]) = [0.44118, - 0.02941, 0.58824]
   \<and> snd (snd (step logging_ev station3 [1.5, - 0.1, 2] 0.3 0.2)) = Inr (2.64095936, [], 0)
   \<and> snd (snd (step logging_ev station3 [1.5, - 0.1, 2] 0.3 0.2))
        \<noteq> Inl (AssertionError ActionRange)"
proof -
  have a: "fst (zero_empty_ports (evs_connected station3) [1.5, - 0.1, 2]) = [1.5, - 0.1, 2]"
    by code_simp
  have b: "sum_list [1.5, - 0.1, 2 :: real] = 3.4"
    by simp
  have c: "list_all (\<lambda>a. \<bar>a\<bar> \<le> 1.000005 * max 1 \<bar>sum_list [1.5, - 0.1, 2 :: real]\<bar>)
      [1.5, - 0.1, 2]"
    by simp
  have d: "map round5 (normalize_actions [1.5, - 0.1, 2]) = [0.44118, - 0.02941, 0.58824]"
    by code_simp
  have e: "snd (snd (step logging_ev station3 [1.5, - 0.1, 2] 0.3 0.2))
      = Inr (2.64095936, [], 0)"
    by code_simp
  from c have "\<forall>a \<in> set (fst (zero_empty_ports (evs_connected station3) [1.5, - 0.1, 2])).
      \<bar>a\<bar> \<le> 1.000005
        * max 1 \<bar>sum_list (fst (zero_empty_ports (evs_connected station3) [1.5, - 0.1, 2]))\<bar>"
    unfolding a by (simp only: list_all_iff)
  then have "snd (snd (step logging_ev station3 [1.5, - 0.1, 2] 0.3 0.2))
      \<noteq> Inl (AssertionError ActionRange)"
    using step_action_range [of station3 "[1.5, - 0.1, 2]" logging_ev "0.3" "0.2"] by blast
  with a b c d e show ?thesis by simp
qed

subsection \<open>Normalization inside \<open>step\<close>\<close>

text \<open>
  Claim C3. On a station whose port array has \<open>n_ports\<close> slots and for an action list of
  that length, \<open>step\<close> first zeroes the actions of the empty ports, giving the list \<open>z\<close>
  with sum \<open>S\<close>, and then runs its port loop on the normalization of \<open>z\<close>; everything
  \<open>step\<close> returns is determined by that loop. If \<open>S > 1\<close>, every action is divided by
  \<open>S\<close> (port \<open>i\<close> is handled with \<open>z ! i / S\<close>), the normalized actions sum to exactly 1
  and the ratio of any two of them is the ratio of the original two. If \<open>S < -1\<close>, every
  action is divided by \<open>-S\<close>, the normalized actions sum to exactly -1, with the same
  ratios. Otherwise the actions are left unchanged. (Numbers are exact reals here.)
\<close>

theorem step_normalizes_zeroed_actions:
  fixes self :: "'b EV_Charger" and actions :: "real list" and cp dp :: real
  defines "z \<equiv> zeroed (evs_connected self) actions"
      and "S \<equiv> sum_list (zeroed (evs_connected self) actions)"
      and "s0 \<equiv> self\<lparr>current_power_output := 0, current_total_amps := 0,
                       current_charge_price := cp, current_discharge_price := dp\<rparr>"
      and "n_empty \<equiv> int (length (filter (\<lambda>slot. slot = None) (evs_connected self)))"
  assumes "ports_invariant self" and "int (length actions) = n_ports self"
  shows "zero_empty_ports (evs_connected self) actions = (z, Inr n_empty)
       \<and> step M self actions cp dp =
           (case port_loop M cp dp (enumerate 0 (normalize_actions z)) s0
                   \<lparr>profit = 0, actual_power = None, actual_amps = None\<rparr> of
              (s, Inl e) \<Rightarrow> (z, s, Inl e)
            | (s, Inr L) \<Rightarrow>
                (case departure_scan M (s\<lparr>total_profits := total_profits s + profit L\<rparr>) of
                   (s', us) \<Rightarrow>
                     (z, s'\<lparr>current_step := current_step s' + 1\<rparr>, Inr (profit L, us, n_empty))))
       \<and> (S > 1 \<longrightarrow>
            normalize_actions z = map (\<lambda>a. a / S) z
          \<and> sum_list (normalize_actions z) = 1
          \<and> (\<forall>i < length z. \<forall>j < length z.
                enumerate 0 (normalize_actions z) ! i = (i, z ! i / S)
              \<and> normalize_actions z ! i * z ! j = normalize_actions z ! j * z ! i
              \<and> (z ! j \<noteq> 0 \<longrightarrow>
                   normalize_actions z ! i / normalize_actions z ! j = z ! i / z ! j)))
       \<and> (S < - 1 \<longrightarrow>
            normalize_actions z = map (\<lambda>a. a / (- S)) z
          \<and> sum_list (normalize_actions z) = - 1
          \<and> (\<forall>i < length z. \<forall>j < length z.
                enumerate 0 (normalize_actions z) ! i = (i, z ! i / (- S))
              \<and> normalize_actions z ! i * z ! j = normalize_actions z ! j * z ! i
              \<and> (z ! j \<noteq> 0 \<longrightarrow>
                   normalize_actions z ! i / normalize_actions z ! j = z ! i / z ! j)))
       \<and> (- 1 \<le> S \<and> S \<le> 1 \<longrightarrow> normalize_actions z = z)"
proof -
  from assms(5,6) have eq: "length (evs_connected self) = length actions"
    by (simp add: ports_invariant_def)
  then have zp: "zero_empty_ports (evs_connected self) actions = (z, Inr n_empty)"
    by (simp add: zero_empty_ports_eq z_def n_empty_def)
  with assms(6) have st: "step M self actions cp dp =
           (case port_loop M cp dp (enumerate 0 (normalize_actions z)) s0
                   \<lparr>profit = 0, actual_power = None, actual_amps = None\<rparr> of
              (s, Inl e) \<Rightarrow> (z, s, Inl e)
            | (s, Inr L) \<Rightarrow>
                (case departure_scan M (s\<lparr>total_profits := total_profits s + profit L\<rparr>) of
                   (s', us) \<Rightarrow>
                     (z, s'\<lparr>current_step := current_step s' + 1\<rparr>, Inr (profit L, us, n_empty))))"
    by (simp add: step_def s0_def Let_def split: prod.splits sum.splits)
  note n = normalize_actions_sum_and_ratios [of z, folded S_def [unfolded z_def [symmetric]]]
  have big: "S > 1 \<Longrightarrow> i < length z \<Longrightarrow> enumerate 0 (normalize_actions z) ! i = (i, z ! i / S)" for i
    using n by (simp add: nth_enumerate_eq)
  have small: "S < - 1 \<Longrightarrow> i < length z \<Longrightarrow>
      enumerate 0 (normalize_actions z) ! i = (i, z ! i / (- S))" for i
    using n by (simp add: nth_enumerate_eq)
  from zp st n big small show ?thesis by blast
qed

text \<open>
  The theorem on three calls of \<open>step\<close>. On the full 2-port station, \<open>[0.6, 0.6]\<close> (sum
  1.2, the scenario of the specification) is normalized to \<open>[0.5, 0.5]\<close> and both
  vehicles are asked for 16 A; \<open>[-0.9, -0.6]\<close> (sum -1.5) is normalized to
  \<open>[-0.6, -0.4]\<close> and the vehicles are asked for -19.2 A and -12.8 A. On the 2-port
  station with port 1 empty, \<open>[0.9, 5]\<close> is zeroed to \<open>[0.9, 0]\<close>, whose sum 0.9 needs no
  normalization, and the vehicle is asked for 28.8 A.
\<close>

theorem step_normalizes_zeroed_actions_witness:
  "ports_invariant (station2 True) \<and> int (length [0.6, 0.6 :: real]) = n_ports (station2 True)
   \<and> zeroed (evs_connected (station2 True)) [0.6, 0.6] = [0.6, 0.6]
   \<and> 1 < sum_list (zeroed (evs_connected (station2 True)) [0.6, 0.6])
   \<and> normalize_actions (zeroed (evs_connected (station2 True)) [0.6, 0.6]) = [0.5, 0.5]
   \<and> sum_list (normalize_actions (zeroed (evs_connected (station2 True)) [0.6, 0.6])) = 1
   \<and> evs_connected (fst (snd (step logging_ev (station2 True) [0.6, 0.6] 0.3 0.2)))
       = [Some \<lparr>ev_id = 0, internals = (100, [16])\<rparr>,
          Some \<lparr>ev_id = 1, internals = (100, [16])\<rparr>]
   \<and> int (length [- 0.9, - 0.6 :: real]) = n_ports (station2 True)
   \<and> sum_list (zeroed (evs_connected (station2 True)) [- 0.9, - 0.6]) < - 1
   \<and> normalize_actions (zeroed (evs_connected (station2 True)) [- 0.9, - 0.6]) = [- 0.6, - 0.4]
   \<and> sum_list (normalize_actions (zeroed (evs_connected (station2 True)) [- 0.9, - 0.6])) = - 1
   \<and> evs_connected (fst (snd (step logging_ev (station2 True) [- 0.9, - 0.6] 0.3 0.2)))
       = [Some \<lparr>ev_id = 0, internals = (100, [- 19.2])\<rparr>,
          Some \<lparr>ev_id = 1, internals = (100, [- 12.8])\<rparr>]
   \<and> ports_invariant station_half \<and> int (length [0.9, 5 :: real]) = n_ports station_half
   \<and> zeroed (evs_connected station_half) [0.9, 5] = [0.9, 0]
   \<and> - 1 \<le> sum_list (zeroed (evs_connected station_half) [0.9, 5])
   \<and> sum_list (zeroed (evs_connected station_half) [0.9, 5]) \<le> 1
   \<and> normalize_actions (zeroed (evs_connected station_half) [0.9, 5]) = [0.9, 0]
   \<and> evs_connected (fst (snd (step logging_ev station_half [0.9, 5] 0.3 0.2)))
       = [Some \<lparr>ev_id = 0, internals = (100, [28.8])\<rparr>, None]"
proof -
  have a1: "ports_invariant (station2 True)"
    and b1: "int (length [0.6, 0.6 :: real]) = n_ports (station2 True)"
    and c1: "zeroed (evs_connected (station2 True)) [0.6, 0.6] = [0.6, 0.6]"
    and d1: "1 < sum_list (zeroed (evs_connected (station2 True)) [0.6, 0.6])"
    and e1: "normalize_actions (zeroed (evs_connected (station2 True)) [0.6, 0.6]) = [0.5, 0.5]"
    and f1: "evs_connected (fst (snd (step logging_ev (station2 True) [0.6, 0.6] 0.3 0.2)))
       = [Some \<lparr>ev_id = 0, internals = (100, [16])\<rparr>,
          Some \<lparr>ev_id = 1, internals = (100, [16])\<rparr>]"
    by code_simp+
  have b2: "int (length [- 0.9, - 0.6 :: real]) = n_ports (station2 True)"
    and d2: "sum_list (zeroed (evs_connected (station2 True)) [- 0.9, - 0.6]) < - 1"
    and e2: "normalize_actions (zeroed (evs_connected (station2 True)) [- 0.9, - 0.6])
       = [- 0.6, - 0.4]"
    and f2: "evs_connected (fst (snd (step logging_ev (station2 True) [- 0.9, - 0.6] 0.3 0.2)))
       = [Some \<lparr>ev_id = 0, internals = (100, [- 19.2])\<rparr>,
          Some \<lparr>ev_id = 1, internals = (100, [- 12.8])\<rparr>]"
    by code_simp+
  have a3: "ports_invariant station_half"
    and b3: "int (length [0.9, 5 :: real]) = n_ports station_half"
    and c3: "zeroed (evs_connected station_half) [0.9, 5] = [0.9, 0]"
    and d3: "- 1 \<le> sum_list (zeroed (evs_connected station_half) [0.9, 5])"
    and d3': "sum_list (zeroed (evs_connected station_half) [0.9, 5]) \<le> 1"
    and f3: "evs_connected (fst (snd (step logging_ev station_half [0.9, 5] 0.3 0.2)))
       = [Some \<lparr>ev_id = 0, internals = (100, [28.8])\<rparr>, None]"
    by code_simp+
  from step_normalizes_zeroed_actions [OF a1 b1, of logging_ev "0.3" "0.2"] d1
  have g1: "sum_list (normalize_actions (zeroed (evs_connected (station2 True)) [0.6, 0.6])) = 1"
    by blast
  from step_normalizes_zeroed_actions [OF a1 b2, of logging_ev "0.3" "0.2"] d2
  have g2: "sum_list (normalize_actions (zeroed (evs_connected (station2 True)) [- 0.9, - 0.6]))
      = - 1"
    by blast
  from step_normalizes_zeroed_actions [OF a3 b3, of logging_ev "0.3" "0.2"] d3 d3'
  have g3: "normalize_actions (zeroed (evs_connected station_half) [0.9, 5])
      = zeroed (evs_connected station_half) [0.9, 5]"
    by blast
  from g3 c3 have h3: "normalize_actions (zeroed (evs_connected station_half) [0.9, 5]) = [0.9, 0]"
    by simp
  show ?thesis
    by (intro conjI a1 b1 c1 d1 e1 f1 g1 b2 d2 e2 f2 g2 a3 b3 c3 d3 d3' h3 f3)
qed

end
